theory Spec2Isabelle
  imports Main
begin

section \<open>Data model of \<^verbatim>\<open>mozphab/commands/patch.py\<close>\<close>

text \<open>
  The command works on JSON-like dictionaries returned by the review service. Only the
  keys that \<^verbatim>\<open>patch.py\<close> reads are kept; each dictionary becomes a record.
  Handles (PHIDs) and node identifiers are strings, revision and diff ids are Python
  integers.
\<close>

type_synonym phid = string

record revision =
  rev_id :: int
  rev_phid :: phid
  rev_title :: string
  rev_summary :: string
  rev_diffPHID :: phid

record ref =
  ref_type :: string
  ref_identifier :: string

record author =
  author_name :: string
  author_email :: string

text \<open>
  \<open>diff_refs\<close> is \<^verbatim>\<open>diff["fields"]["refs"]\<close>, \<open>None\<close> when the key is absent;
  \<open>diff_commits\<close> lists the authors of \<^verbatim>\<open>diff["attachments"]["commits"]["commits"]\<close>,
  one per attached commit.
\<close>

record diff =
  diff_id :: int
  diff_refs :: "ref list option"
  diff_commits :: "author list"
  diff_dateCreated :: int

text \<open>
  The argument of \<^verbatim>\<open>check_revision_id\<close> is a Python \<^verbatim>\<open>str\<close>: a list of Unicode code
  points. The texts that \<^verbatim>\<open>patch\<close> builds are kept as strings of the logic.
\<close>

type_synonym codepoint = nat

type_synonym ustring = "codepoint list"

text \<open>
  The exceptions: \<^verbatim>\<open>mozphab.exceptions.Error\<close>, \<^verbatim>\<open>argparse.ArgumentTypeError\<close>, and the
  built-in \<^verbatim>\<open>ValueError\<close> (of \<^verbatim>\<open>int\<close>), \<^verbatim>\<open>KeyError\<close> and \<^verbatim>\<open>IndexError\<close>.
\<close>

datatype error =
    Error string
  | ArgumentTypeError ustring
  | ValueError
  | KeyError string
  | IndexError

section \<open>String helpers\<close>

abbreviation newline :: char where
  "newline \<equiv> CHR 0x0A"

text \<open>Python's \<^verbatim>\<open>"%s" % n\<close> for an integer: its decimal spelling.\<close>

definition digit_char :: "nat \<Rightarrow> char" where
  "digit_char d = ''0123456789'' ! d"

fun str_nat :: "nat \<Rightarrow> string" where
  "str_nat n =
     (if n < 10 then [digit_char n]
      else str_nat (n div 10) @ [digit_char (n mod 10)])"

declare str_nat.simps [simp del]

definition str_int :: "int \<Rightarrow> string" where
  "str_int i = (if i < 0 then CHR ''-'' # str_nat (nat (- i)) else str_nat (nat i))"

section \<open>\<^verbatim>\<open>get_base_ref\<close>\<close>

text \<open>
  \<^verbatim>\<open>for ref in diff["fields"].get("refs", []): if ref["type"] == "base": return ref["identifier"]\<close>;
  falling off the loop returns \<^verbatim>\<open>None\<close>.
\<close>

fun find_base :: "ref list \<Rightarrow> string option" where
  "find_base [] = None"
| "find_base (r # rs) = (if ref_type r = ''base'' then Some (ref_identifier r) else find_base rs)"

text \<open>\<^verbatim>\<open>diff["fields"].get("refs", [])\<close>\<close>

definition get_refs :: "diff \<Rightarrow> ref list" where
  "get_refs d = (case diff_refs d of None \<Rightarrow> [] | Some rs \<Rightarrow> rs)"

definition get_base_ref :: "diff \<Rightarrow> string option" where
  "get_base_ref d = find_base (get_refs d)"

section \<open>\<^verbatim>\<open>check_revision_id\<close>\<close>

text \<open>The code point of a character, and a literal of the source as a \<^verbatim>\<open>str\<close>.\<close>

definition cp :: "char \<Rightarrow> codepoint" where
  "cp c = of_char c"

definition ustr :: "string \<Rightarrow> ustring" where
  "ustr s = map cp s"

text \<open>
  What \<^verbatim>\<open>check_revision_id\<close> takes from the interpreter, outside the repository:
  \<^item> \<open>decimal\<close>: the Unicode table of decimal digits (category \<^verbatim>\<open>Nd\<close>), \<open>Some d\<close> for a
    character that is a decimal digit of value \<open>d\<close>. The class \<^verbatim>\<open>\d\<close> of a \<^verbatim>\<open>str\<close>
    pattern matches exactly these characters, and \<^verbatim>\<open>int\<close> reads them with these values;
  \<^item> \<open>int_max_str_digits\<close>: \<^verbatim>\<open>sys.get_int_max_str_digits()\<close>, 4300 unless changed, and
    0 where there is no limit: \<^verbatim>\<open>int\<close> raises \<^verbatim>\<open>ValueError\<close> on a longer run of digits.
\<close>

record python =
  decimal :: "codepoint \<Rightarrow> nat option"
  int_max_str_digits :: nat

definition is_digit :: "python \<Rightarrow> codepoint \<Rightarrow> bool" where
  "is_digit py c = (decimal py c \<noteq> None)"

text \<open>Python's \<^verbatim>\<open>int(s)\<close> on a non-empty run of decimal digits.\<close>

definition int_of_digits :: "python \<Rightarrow> ustring \<Rightarrow> int" where
  "int_of_digits py ds =
     foldl (\<lambda>acc c. 10 * acc + (case decimal py c of None \<Rightarrow> 0 | Some d \<Rightarrow> int d)) 0 ds"

definition over_limit :: "python \<Rightarrow> ustring \<Rightarrow> bool" where
  "over_limit py ds \<longleftrightarrow> 0 < int_max_str_digits py \<and> int_max_str_digits py < length ds"

definition py_int :: "python \<Rightarrow> ustring \<Rightarrow> error + int" where
  "py_int py ds = (if over_limit py ds then Inl ValueError else Inr (int_of_digits py ds))"

text \<open>
  \<^verbatim>\<open>re.search(r"^D?(\d+)$", value)\<close>: an optional \<^verbatim>\<open>D\<close>, the longest run of digits
  (at least one), then the end of the string or a single newline that ends the string
  (Python's \<^verbatim>\<open>$\<close> without \<^verbatim>\<open>re.MULTILINE\<close>). The result is group 1. No other way
  of matching exists, as \<^verbatim>\<open>D\<close> is not a digit.
\<close>

definition match_number :: "python \<Rightarrow> ustring \<Rightarrow> ustring option" where
  "match_number py v =
     (let s = (case v of [] \<Rightarrow> [] | c # cs \<Rightarrow> if c = cp (CHR ''D'') then cs else v);
          ds = takeWhile (is_digit py) s;
          rest = dropWhile (is_digit py) s
      in if ds \<noteq> [] \<and> (rest = [] \<or> rest = [cp newline]) then Some ds else None)"

text \<open>
  \<^verbatim>\<open>re.search(r"^https?://[^/]+/D(\d+)", value)\<close>: \<^verbatim>\<open>http\<close>, an optional \<^verbatim>\<open>s\<close>,
  \<^verbatim>\<open>://\<close>, the longest run of characters other than \<^verbatim>\<open>/\<close> (at least one),
  \<^verbatim>\<open>/D\<close> and the longest run of digits (at least one). Nothing anchors the end.
\<close>

definition strip_prefix :: "ustring \<Rightarrow> ustring \<Rightarrow> ustring option" where
  "strip_prefix p s = (if take (length p) s = p then Some (drop (length p) s) else None)"

definition match_url :: "python \<Rightarrow> ustring \<Rightarrow> ustring option" where
  "match_url py v =
     (case strip_prefix (ustr ''http'') v of None \<Rightarrow> None
      | Some s0 \<Rightarrow>
         (let s1 = (case s0 of [] \<Rightarrow> [] | c # cs \<Rightarrow> if c = cp (CHR ''s'') then cs else s0) in
          case strip_prefix (ustr ''://'') s1 of None \<Rightarrow> None
          | Some s2 \<Rightarrow>
             (let host = takeWhile (\<lambda>c. c \<noteq> cp (CHR ''/'')) s2;
                  s3 = dropWhile (\<lambda>c. c \<noteq> cp (CHR ''/'')) s2 in
              if host = [] then None
              else case strip_prefix (ustr ''/D'') s3 of None \<Rightarrow> None
                   | Some s4 \<Rightarrow>
                      (let ds = takeWhile (is_digit py) s4 in
                       if ds \<noteq> [] then Some ds else None))))"

definition check_revision_id :: "python \<Rightarrow> ustring \<Rightarrow> error + int" where
  "check_revision_id py v =
     (case match_number py v of Some ds \<Rightarrow> py_int py ds
      | None \<Rightarrow>
         (case match_url py v of Some ds \<Rightarrow> py_int py ds
          | None \<Rightarrow>
             Inl (ArgumentTypeError
                   (ustr ''Invalid Revision ID (expected number or URL): '' @ v
                      @ [cp newline]))))"

section \<open>Collaborators, configuration and arguments\<close>

text \<open>
  \<^verbatim>\<open>patch\<close> talks to the review service (\<^verbatim>\<open>conduit\<close>), to the local repository
  (\<^verbatim>\<open>repo\<close>), to the terminal (\<^verbatim>\<open>prompt\<close>, \<^verbatim>\<open>logger\<close>, \<^verbatim>\<open>wait_message\<close>) and to
  helpers of other modules. Their code is outside \<^verbatim>\<open>patch.py\<close>; each one is a field of
  the environment, a function of the arguments it is called with. What a collaborator
  raises and \<^verbatim>\<open>patch\<close> handles is part of its result:
  \<^item> \<open>check_vcs\<close>: \<open>Some e\<close> when \<^verbatim>\<open>repo.check_vcs()\<close> raises \<open>e\<close>;
  \<^item> \<open>get_ancestor_phids\<close>, \<open>get_successor_phids\<close>: \<open>None\<close> for \<^verbatim>\<open>NonLinearException\<close>;
  \<^item> \<open>check_node\<close>: \<open>Inl msg\<close> for \<^verbatim>\<open>NotFoundError(msg)\<close>;
  \<^item> \<open>repo_apply_patch\<close>: \<open>False\<close> for \<^verbatim>\<open>subprocess.CalledProcessError\<close>.
  Any other exception of a collaborator (a network failure, say) is not modelled.
\<close>

record env =
  conduit_check :: bool
  check_vcs :: "error option"
  is_worktree_clean :: bool
  is_mercurial :: bool
  phab_url :: string
  repo_path :: string
  get_revisions_ids :: "int list \<Rightarrow> revision list"
  get_revisions_phids :: "phid list \<Rightarrow> revision list"
  get_ancestor_phids :: "phid \<Rightarrow> phid list option"
  get_successor_phids :: "phid \<Rightarrow> bool \<Rightarrow> phid list option"
  get_diffs :: "phid list \<Rightarrow> (phid \<rightharpoonup> diff)"
  getrawdiff :: "int \<Rightarrow> string"
  check_node :: "string \<Rightarrow> string + string"
  short_node :: "string \<Rightarrow> string"
  prepare_body :: "string \<Rightarrow> string \<Rightarrow> int \<Rightarrow> string \<Rightarrow> int option \<Rightarrow> string"
  prompt :: "string \<Rightarrow> string list \<Rightarrow> string"
  repo_apply_patch :: "string \<Rightarrow> string \<Rightarrow> string \<Rightarrow> int \<Rightarrow> bool"

record config =
  always_full_stack :: bool
  apply_patch_to :: string

text \<open>\<open>apply_to\<close> is \<open>None\<close> when \<^verbatim>\<open>--apply-to\<close> is not given.\<close>

record args =
  revision_id :: int
  raw :: bool
  no_commit :: bool
  apply_to :: "string option"
  no_parents :: bool
  no_children :: bool
  no_dependencies :: bool
  include_abandoned :: bool
  yes :: bool

text \<open>
  Every call to a collaborator and every line of output is an event, in program order.
  \<open>RepoApplyPatch\<close> also records whether the call created the commit.
\<close>

datatype event =
    Wait string
  | ConduitCheck
  | CheckVcs
  | IsWorktreeClean
  | GetRevisionsIds "int list"
  | GetRevisionsPhids "phid list"
  | GetAncestorPhids phid
  | GetSuccessorPhids phid bool
  | LogInfo string
  | LogWarning string
  | Prompt string "string list"
  | ConfigWrite
  | GetDiffs "phid list"
  | CheckNode string
  | BeforePatch "string option" "string option"
  | PrepareBody string string int string "int option"
  | GetRawDiff int
  | ApplyPatch string string
  | RepoApplyPatch string string string int bool

text \<open>A step yields the events it produced and either the exception raised or its value.\<close>

type_synonym 'a res = "event list \<times> (error + 'a)"

definition ret :: "'a \<Rightarrow> 'a res" where
  "ret x = ([], Inr x)"

definition raise :: "error \<Rightarrow> 'a res" where
  "raise e = ([], Inl e)"

definition emits :: "event list \<Rightarrow> 'a res \<Rightarrow> 'a res" where
  "emits es k = (es @ fst k, snd k)"

definition bind_res :: "'a res \<Rightarrow> ('a \<Rightarrow> 'b res) \<Rightarrow> 'b res" where
  "bind_res m f = (case snd m of Inl e \<Rightarrow> (fst m, Inl e) | Inr x \<Rightarrow> emits (fst m) (f x))"

section \<open>\<^verbatim>\<open>patch\<close>, lines 46 to 65: connection and working-tree checks\<close>

definition preflight :: "env \<Rightarrow> args \<Rightarrow> unit res" where
  "preflight env args =
     emits [Wait ''Checking connection to Phabricator.'', ConduitCheck]
       (if \<not> conduit_check env then raise (Error ''Failed to use Conduit API'')
        else if raw args then ret ()
        else emits [Wait ''Checking VCS'', CheckVcs]
          (case check_vcs env of Some e \<Rightarrow> raise e
           | None \<Rightarrow>
              emits [Wait ''Checking repository..'', IsWorktreeClean]
                (if \<not> is_worktree_clean env
                 then raise (Error (''Uncommitted changes present. Please ''
                        @ (if is_mercurial env then ''shelve'' else ''stash'')
                        @ '' them or commit before patching.''))
                 else ret ())))"

section \<open>\<^verbatim>\<open>patch\<close>, lines 67 to 126: resolving the stack\<close>

text \<open>\<^verbatim>\<open>"D%s" % args.revision_id\<close>\<close>

definition dname :: "int \<Rightarrow> string" where
  "dname i = CHR ''D'' # str_int i"

text \<open>Lines 79 to 88. A non-linear ancestry is fatal.\<close>

definition fetch_parents :: "env \<Rightarrow> args \<Rightarrow> revision \<Rightarrow> phid list res" where
  "fetch_parents env args revision =
     (if \<not> (no_parents args \<or> no_dependencies args)
      then emits [Wait (''Fetching '' @ dname (revision_id args) @ [CHR 0x27] @ ''s parents..''),
                  GetAncestorPhids (rev_phid revision)]
             (case get_ancestor_phids env (rev_phid revision) of
                None \<Rightarrow> raise (Error (''Revision '' @ dname (revision_id args)
                           @ '' has non-linear dependency relationships.'' @ [newline]
                           @ ''Unable to patch the stack.''))
              | Some ps \<Rightarrow> ret ps)
      else ret [])"

text \<open>Lines 90 to 102. A non-linear descendancy is logged and leaves \<^verbatim>\<open>children\<close> empty.\<close>

definition fetch_children :: "env \<Rightarrow> args \<Rightarrow> revision \<Rightarrow> phid list res" where
  "fetch_children env args revision =
     (if \<not> (no_children args \<or> no_dependencies args)
      then emits [Wait (''Fetching '' @ dname (revision_id args) @ [CHR 0x27] @ ''s children..''),
                  GetSuccessorPhids (rev_phid revision) (include_abandoned args)]
             (case get_successor_phids env (rev_phid revision) (include_abandoned args) of
                None \<Rightarrow> emits [LogWarning (''Revision '' @ dname (revision_id args)
                           @ '' has non-linear dependency relationships.'' @ [newline]
                           @ ''Unable to apply child revisions.'')] (ret [])
              | Some cs \<Rightarrow> ret cs)
      else ret [])"

text \<open>
  Lines 104 to 116. The result is the configuration, changed and written when the answer
  is \<^verbatim>\<open>Always\<close>, and the children kept.
\<close>

definition children_question :: "args \<Rightarrow> phid list \<Rightarrow> string" where
  "children_question args children =
     ''Revision '' @ dname (revision_id args) @ '' has ''
       @ (if length children = 1 then ''a child commit'' else ''child commits'')
       @ ''.  Would you like to patch all children?''"

definition confirm_children :: "env \<Rightarrow> config \<Rightarrow> args \<Rightarrow> phid list \<Rightarrow> (config \<times> phid list) res" where
  "confirm_children env cfg args children =
     (if \<not> yes args \<and> children \<noteq> [] \<and> \<not> always_full_stack cfg
      then emits [Prompt (children_question args children) [''Yes'', ''No'', ''Always'']]
             (let res = prompt env (children_question args children) [''Yes'', ''No'', ''Always''] in
              if res = ''Always''
              then emits [ConfigWrite] (ret (cfg\<lparr>always_full_stack := True\<rparr>, children))
              else if res = ''No'' then ret (cfg, [])
              else ret (cfg, children))
      else ret (cfg, children))"

text \<open>Lines 118 to 126, on \<^verbatim>\<open>revisions\<close> as returned for the target id.\<close>

definition fetch_related :: "env \<Rightarrow> revision list \<Rightarrow> phid list \<Rightarrow> phid list \<Rightarrow> revision list res" where
  "fetch_related env revisions parents children =
     bind_res (if parents \<noteq> []
           then emits [Wait ''Fetching related revisions..'', GetRevisionsPhids parents]
                  (ret (rev (revisions @ get_revisions_phids env parents)))
           else ret revisions)
       (\<lambda>revisions.
          if children \<noteq> []
          then emits [Wait ''Fetching related revisions..'', GetRevisionsPhids children]
                 (ret (revisions @ get_revisions_phids env children))
          else ret revisions)"

definition resolve_stack :: "env \<Rightarrow> config \<Rightarrow> args \<Rightarrow> (config \<times> revision list) res" where
  "resolve_stack env cfg args =
     emits [Wait (''Fetching '' @ dname (revision_id args) @ ''..''),
            GetRevisionsIds [revision_id args]]
       (case get_revisions_ids env [revision_id args] of
          [] \<Rightarrow> raise (Error ''Revision not found'')
        | revision # others \<Rightarrow>
           bind_res (fetch_parents env args revision) (\<lambda>parents.
           bind_res (fetch_children env args revision) (\<lambda>children.
           bind_res (confirm_children env cfg args children) (\<lambda>(cfg', children).
           bind_res (fetch_related env (revision # others) parents children) (\<lambda>revisions.
           ret (cfg', revisions))))))"

section \<open>\<^verbatim>\<open>patch\<close>, lines 128 to 181: diffs, commit information, base node\<close>

text \<open>\<^verbatim>\<open>sep.join(xs)\<close>\<close>

fun join :: "string \<Rightarrow> string list \<Rightarrow> string" where
  "join sep [] = []"
| "join sep [x] = x"
| "join sep (x # y # ys) = x @ sep @ join sep (y # ys)"

definition log_patching :: "args \<Rightarrow> revision list \<Rightarrow> unit res" where
  "log_patching args revisions =
     (if \<not> raw args
      then emits [LogInfo (''Patching revision'' @ (if length revisions > 1 then ''s'' else [])
                    @ '': '' @ join '' '' (map (\<lambda>r. dname (rev_id r)) revisions))] (ret ())
      else ret ())"

definition pull_diffs :: "env \<Rightarrow> revision list \<Rightarrow> (phid \<rightharpoonup> diff) res" where
  "pull_diffs env revisions =
     emits [Wait ''Downloading patch information..'', GetDiffs (map rev_diffPHID revisions)]
       (ret (get_diffs env (map rev_diffPHID revisions)))"

text \<open>
  Lines 140 to 146, the loop run when neither \<^verbatim>\<open>--no-commit\<close> nor \<^verbatim>\<open>--raw\<close> is given.
  \<^verbatim>\<open>diffs[...]\<close> raises \<^verbatim>\<open>KeyError\<close> on a handle the service returned no diff for.
\<close>

fun check_commit_info :: "(phid \<rightharpoonup> diff) \<Rightarrow> revision list \<Rightarrow> unit res" where
  "check_commit_info diffs [] = ret ()"
| "check_commit_info diffs (r # revs) =
     (case diffs (rev_diffPHID r) of
        None \<Rightarrow> raise (KeyError (rev_diffPHID r))
      | Some d \<Rightarrow>
         if diff_commits d = []
         then raise (Error (''A diff without commit information detected in revision ''
                @ dname (rev_id r) @ ''.'' @ [newline]
                @ ''Use `--no-commit` to patch the working tree.''))
         else check_commit_info diffs revs)"

text \<open>\<^verbatim>\<open>args.apply_to or config.apply_patch_to\<close>: an empty string is false too.\<close>

definition effective_apply_to :: "config \<Rightarrow> args \<Rightarrow> string" where
  "effective_apply_to cfg args =
     (case apply_to args of
        None \<Rightarrow> apply_patch_to cfg
      | Some a \<Rightarrow> if a = [] then apply_patch_to cfg else a)"

text \<open>
  Lines 155 to 164. \<^verbatim>\<open>revisions\<close> is never empty here, so \<^verbatim>\<open>revisions[0]\<close> is its head.
  \<^verbatim>\<open>not base_node\<close> holds for \<^verbatim>\<open>None\<close> and for the empty string.
\<close>

definition choose_base :: "string \<Rightarrow> (phid \<rightharpoonup> diff) \<Rightarrow> revision list \<Rightarrow> string option res" where
  "choose_base apply_to' diffs revisions =
     (if apply_to' = ''base''
      then (case diffs (rev_diffPHID (hd revisions)) of
              None \<Rightarrow> raise (KeyError (rev_diffPHID (hd revisions)))
            | Some d \<Rightarrow>
               (case get_base_ref d of
                  None \<Rightarrow> raise (Error (''Base commit not found in diff. ''
                             @ ''Use `--apply-to here` to patch current commit.''))
                | Some b \<Rightarrow>
                   if b = []
                   then raise (Error (''Base commit not found in diff. ''
                          @ ''Use `--apply-to here` to patch current commit.''))
                   else ret (Some b)))
      else if apply_to' \<noteq> ''here'' then ret (Some apply_to')
      else ret None)"

text \<open>
  Lines 166 to 178. \<^verbatim>\<open>base_node\<close> is a string whenever \<^verbatim>\<open>apply_to\<close> is not
  \<^verbatim>\<open>here\<close>; the \<open>None\<close> case below is never reached.
\<close>

definition validate_base :: "env \<Rightarrow> string \<Rightarrow> string option \<Rightarrow> string option res" where
  "validate_base env apply_to' base_node =
     (if apply_to' \<noteq> ''here''
      then (case base_node of
              None \<Rightarrow> ret None
            | Some b \<Rightarrow>
               emits [Wait (''Checking '' @ short_node env b @ ''..''), CheckNode b]
                 (case check_node env b of
                    Inr node \<Rightarrow> ret (Some node)
                  | Inl msg \<Rightarrow>
                     raise (Error (''Unknown revision: '' @ short_node env b
                       @ (if msg \<noteq> [] then [newline] @ msg else [])
                       @ (if apply_to' = ''base''
                          then [newline] @ ''Use --apply-to to set the base commit.''
                          else [])))))
      else ret base_node)"

definition select_base ::
    "env \<Rightarrow> config \<Rightarrow> args \<Rightarrow> (phid \<rightharpoonup> diff) \<Rightarrow> revision list \<Rightarrow> int \<Rightarrow> unit res" where
  "select_base env cfg args diffs revisions target_revision_id =
     bind_res (choose_base (effective_apply_to cfg args) diffs revisions) (\<lambda>base_node.
     bind_res (validate_base env (effective_apply_to cfg args) base_node) (\<lambda>base_node.
     emits [BeforePatch base_node
              (if no_commit args then None else Some (''phab-'' @ dname target_revision_id))]
       (ret ())))"

section \<open>\<^verbatim>\<open>patch\<close>, lines 183 to 222: applying the stack\<close>

text \<open>
  One iteration of the loop for \<^verbatim>\<open>rev\<close>, with \<^verbatim>\<open>parent\<close> as left by the previous one.
  \<^verbatim>\<open>--no-commit\<close> is tested before \<^verbatim>\<open>--raw\<close>, as in the source.
\<close>

definition apply_one ::
    "env \<Rightarrow> args \<Rightarrow> (phid \<rightharpoonup> diff) \<Rightarrow> int \<Rightarrow> int option \<Rightarrow> revision \<Rightarrow> unit res" where
  "apply_one env args diffs last_id parent r =
     emits [PrepareBody (rev_title r) (rev_summary r) (rev_id r) (phab_url env) parent]
       (let body = prepare_body env (rev_title r) (rev_summary r) (rev_id r) (phab_url env) parent in
        case diffs (rev_diffPHID r) of
          None \<Rightarrow> raise (KeyError (rev_diffPHID r))
        | Some d \<Rightarrow>
           emits [Wait (''Downloading '' @ dname (rev_id r) @ ''..''), GetRawDiff (diff_id d)]
             (let rawd = getrawdiff env (diff_id d) in
              bind_res
                (if no_commit args
                 then emits [Wait (''Applying '' @ dname (rev_id r) @ ''..''),
                             ApplyPatch rawd (repo_path env)] (ret ())
                 else if raw args then emits [LogInfo rawd] (ret ())
                 else (case diff_commits d of
                         [] \<Rightarrow> raise IndexError
                       | c # cs \<Rightarrow>
                          (let author = author_name c @ '' <'' @ author_email c @ ''>'';
                               ok = repo_apply_patch env rawd body author (diff_dateCreated d)
                           in emits [Wait (''Applying '' @ dname (rev_id r) @ ''..''),
                                     RepoApplyPatch rawd body author (diff_dateCreated d) ok]
                                (if ok then ret () else raise (Error ''Patch failed to apply'')))))
                (\<lambda>_. if \<not> raw args \<and> rev_id r \<noteq> last_id
                      then emits [LogInfo (dname (rev_id r) @ '' applied'')] (ret ())
                      else ret ())))"

fun apply_revisions ::
    "env \<Rightarrow> args \<Rightarrow> (phid \<rightharpoonup> diff) \<Rightarrow> int \<Rightarrow> int option \<Rightarrow> revision list \<Rightarrow> unit res" where
  "apply_revisions env args diffs last_id parent [] = ret ()"
| "apply_revisions env args diffs last_id parent (r # revs) =
     (case snd (apply_one env args diffs last_id parent r) of
        Inl e \<Rightarrow> (fst (apply_one env args diffs last_id parent r), Inl e)
      | Inr _ \<Rightarrow>
         emits (fst (apply_one env args diffs last_id parent r))
           (apply_revisions env args diffs last_id (Some (rev_id r)) revs))"

text \<open>
  Lines 128 to 222 on the resolved \<^verbatim>\<open>revisions\<close>, which is never empty:
  \<^verbatim>\<open>revisions[-1]\<close> is its last element.
\<close>

definition apply_stack :: "env \<Rightarrow> config \<Rightarrow> args \<Rightarrow> revision list \<Rightarrow> unit res" where
  "apply_stack env cfg args revisions =
     bind_res (log_patching args revisions) (\<lambda>_.
     bind_res (pull_diffs env revisions) (\<lambda>diffs.
     bind_res (if \<not> no_commit args \<and> \<not> raw args
               then check_commit_info diffs revisions else ret ()) (\<lambda>_.
     bind_res (if \<not> raw args
               then select_base env cfg args diffs revisions (rev_id (last revisions))
               else ret ()) (\<lambda>_.
     bind_res (apply_revisions env args diffs (rev_id (last revisions)) None revisions) (\<lambda>_.
     if \<not> raw args
     then emits [LogWarning (dname (rev_id (last revisions)) @ '' applied'')] (ret ())
     else ret ())))))"

section \<open>\<^verbatim>\<open>patch\<close>\<close>

text \<open>
  The whole command: the events of the run, the configuration it leaves, and the
  exception that ended it or \<open>()\<close>.
\<close>

definition patch :: "env \<Rightarrow> config \<Rightarrow> args \<Rightarrow> event list \<times> config \<times> (error + unit)" where
  "patch env cfg args =
     (case snd (preflight env args) of
        Inl e \<Rightarrow> (fst (preflight env args), cfg, Inl e)
      | Inr _ \<Rightarrow>
         (case snd (resolve_stack env cfg args) of
            Inl e \<Rightarrow> (fst (preflight env args) @ fst (resolve_stack env cfg args), cfg, Inl e)
          | Inr (cfg', revisions) \<Rightarrow>
             (fst (preflight env args) @ fst (resolve_stack env cfg args)
                @ fst (apply_stack env cfg' args revisions),
              cfg',
              snd (apply_stack env cfg' args revisions))))"

section \<open>Accepted spellings of a revision id\<close>

text \<open>
  The two shapes of input that \<^verbatim>\<open>check_revision_id\<close> accepts, for a digit string
  \<open>ds\<close>: the number with an optional \<^verbatim>\<open>D\<close>, and a URL whose path starts with
  \<^verbatim>\<open>D\<close> and the number, where \<open>ds\<close> is the whole run of digits there.
\<close>

definition number_shape :: "ustring \<Rightarrow> ustring \<Rightarrow> bool" where
  "number_shape v ds \<longleftrightarrow> v = ds \<or> v = cp (CHR ''D'') # ds"

definition url_shape :: "python \<Rightarrow> ustring \<Rightarrow> ustring \<Rightarrow> bool" where
  "url_shape py v ds \<longleftrightarrow>
     (\<exists>sch host rest. (sch = ustr ''http'' \<or> sch = ustr ''https'') \<and> host \<noteq> []
        \<and> cp (CHR ''/'') \<notin> set host \<and> (rest = [] \<or> \<not> is_digit py (hd rest))
        \<and> v = sch @ ustr ''://'' @ host @ ustr ''/D'' @ ds @ rest)"

text \<open>The table of decimal digits agrees with Unicode on the ASCII characters.\<close>

definition ascii_digits :: "python \<Rightarrow> bool" where
  "ascii_digits py \<longleftrightarrow>
     (\<forall>c<128. decimal py c = (if 48 \<le> c \<and> c \<le> 57 then Some (c - 48) else None))"

text \<open>
  The inputs that the first pattern matches only because \<^verbatim>\<open>$\<close> also matches before a
  final newline: a run of digits with an optional \<^verbatim>\<open>D\<close>, followed by one newline.
\<close>

definition newline_slip :: "python \<Rightarrow> ustring \<Rightarrow> bool" where
  "newline_slip py v \<longleftrightarrow>
     v \<noteq> [] \<and> last v = cp newline
     \<and> (let s = butlast v;
             t = (case s of [] \<Rightarrow> [] | c # cs \<Rightarrow> if c = cp (CHR ''D'') then cs else s)
         in t \<noteq> [] \<and> list_all (is_digit py) t)"

text \<open>
  An interpreter with the default limit whose decimal digits are the ASCII digits and
  the Arabic-Indic digits \<^verbatim>\<open>U+0660\<close> to \<^verbatim>\<open>U+0669\<close>.
\<close>

definition sample_python :: python where
  "sample_python =
     \<lparr>decimal = (\<lambda>c. if 48 \<le> c \<and> c \<le> 57 then Some (c - 48)
                     else if 1632 \<le> c \<and> c \<le> 1641 then Some (c - 1632) else None),
      int_max_str_digits = 4300\<rparr>"

section \<open>Observations on a run\<close>

text \<open>Fetches of diff data from the service: \<^verbatim>\<open>get_diffs\<close> and \<^verbatim>\<open>differential.getrawdiff\<close>.\<close>

fun is_diff_fetch :: "event \<Rightarrow> bool" where
  "is_diff_fetch (GetDiffs ps) = True"
| "is_diff_fetch (GetRawDiff i) = True"
| "is_diff_fetch e = False"

text \<open>The checks and the set-up of the working tree: lines 55, 59, 169 and 181.\<close>

fun is_guard :: "event \<Rightarrow> bool" where
  "is_guard CheckVcs = True"
| "is_guard IsWorktreeClean = True"
| "is_guard (CheckNode n) = True"
| "is_guard (BeforePatch b n) = True"
| "is_guard e = False"

text \<open>Calls that change the working tree: lines 181, 200 and 214.\<close>

fun is_mutation :: "event \<Rightarrow> bool" where
  "is_mutation (BeforePatch b n) = True"
| "is_mutation (ApplyPatch rawd path) = True"
| "is_mutation (RepoApplyPatch rawd body a d ok) = True"
| "is_mutation e = False"

fun is_prompt :: "event \<Rightarrow> bool" where
  "is_prompt (Prompt q opts) = True"
| "is_prompt e = False"

text \<open>The texts written with \<^verbatim>\<open>logger.info\<close>, in order.\<close>

fun info_of :: "event \<Rightarrow> string list" where
  "info_of (LogInfo s) = [s]"
| "info_of e = []"

definition infos :: "event list \<Rightarrow> string list" where
  "infos t = concat (map info_of t)"

fun warning_of :: "event \<Rightarrow> string list" where
  "warning_of (LogWarning s) = [s]"
| "warning_of e = []"

definition warnings :: "event list \<Rightarrow> string list" where
  "warnings t = concat (map warning_of t)"

text \<open>
  The commits created by \<^verbatim>\<open>repo.apply_patch\<close>, in order, each with its body, and the
  bodies of the calls that failed.
\<close>

fun commit_of :: "event \<Rightarrow> string list" where
  "commit_of (RepoApplyPatch rawd body a d ok) = (if ok then [body] else [])"
| "commit_of e = []"

definition commits :: "event list \<Rightarrow> string list" where
  "commits t = concat (map commit_of t)"

fun attempt_of :: "event \<Rightarrow> string list" where
  "attempt_of (RepoApplyPatch rawd body a d ok) = [body]"
| "attempt_of e = []"

definition attempts :: "event list \<Rightarrow> string list" where
  "attempts t = concat (map attempt_of t)"

text \<open>
  For each call of \<^verbatim>\<open>prepare_body\<close>, in order: the revision id and the
  \<^verbatim>\<open>depends_on\<close> argument.
\<close>

fun link_of :: "event \<Rightarrow> (int \<times> int option) list" where
  "link_of (PrepareBody title summary i url parent) = [(i, parent)]"
| "link_of e = []"

definition links :: "event list \<Rightarrow> (int \<times> int option) list" where
  "links t = concat (map link_of t)"

section \<open>A service that returns diffs without commit information\<close>

text \<open>
  The same diff with an empty \<^verbatim>\<open>attachments.commits.commits\<close>, and the environment
  whose \<^verbatim>\<open>get_diffs\<close> returns every diff that way.
\<close>

definition without_commits :: "diff \<Rightarrow> diff" where
  "without_commits d = d\<lparr>diff_commits := []\<rparr>"

definition no_commit_info :: "env \<Rightarrow> env" where
  "no_commit_info env =
     env\<lparr>get_diffs := (\<lambda>ps k. map_option without_commits (get_diffs env ps k))\<rparr>"

section \<open>A sample stack\<close>

text \<open>
  Revision 2 with the parent 1 and the child 3, each with a diff of one commit; the
  first diff records its base. The repository takes every patch.
\<close>

definition rev_a :: revision where
  "rev_a = \<lparr>rev_id = 1, rev_phid = ''ra'', rev_title = ''A'', rev_summary = ''sa'',
            rev_diffPHID = ''da''\<rparr>"

definition rev_b :: revision where
  "rev_b = \<lparr>rev_id = 2, rev_phid = ''rb'', rev_title = ''B'', rev_summary = ''sb'',
            rev_diffPHID = ''db''\<rparr>"

definition rev_c :: revision where
  "rev_c = \<lparr>rev_id = 3, rev_phid = ''rc'', rev_title = ''C'', rev_summary = ''sc'',
            rev_diffPHID = ''dc''\<rparr>"

definition ann :: author where
  "ann = \<lparr>author_name = ''Ann'', author_email = ''a@x''\<rparr>"

definition diff_a :: diff where
  "diff_a = \<lparr>diff_id = 11,
             diff_refs = Some [\<lparr>ref_type = ''branch'', ref_identifier = ''default''\<rparr>,
                               \<lparr>ref_type = ''base'', ref_identifier = ''c0ffee''\<rparr>],
             diff_commits = [ann], diff_dateCreated = 100\<rparr>"

definition diff_b :: diff where
  "diff_b = \<lparr>diff_id = 12, diff_refs = None, diff_commits = [ann], diff_dateCreated = 200\<rparr>"

definition diff_c :: diff where
  "diff_c = \<lparr>diff_id = 13, diff_refs = Some [], diff_commits = [ann], diff_dateCreated = 300\<rparr>"

definition sample_revision :: "phid \<Rightarrow> revision list" where
  "sample_revision p =
     (if p = ''ra'' then [rev_a] else if p = ''rb'' then [rev_b]
      else if p = ''rc'' then [rev_c] else [])"

definition sample_diffs :: "phid list \<Rightarrow> (phid \<rightharpoonup> diff)" where
  "sample_diffs ps = map_of (filter (\<lambda>kv. fst kv \<in> set ps)
     [(''da'', diff_a), (''db'', diff_b), (''dc'', diff_c)])"

definition sample_env :: env where
  "sample_env =
     \<lparr>conduit_check = True, check_vcs = None, is_worktree_clean = True, is_mercurial = True,
      phab_url = ''https://p'', repo_path = ''/r'',
      get_revisions_ids = (\<lambda>ids. if ids = [2] then [rev_b] else []),
      get_revisions_phids = (\<lambda>ps. concat (map sample_revision ps)),
      get_ancestor_phids = (\<lambda>p. if p = ''rb'' then Some [''ra''] else Some []),
      get_successor_phids = (\<lambda>p abandoned. if p = ''rb'' then Some [''rc''] else Some []),
      get_diffs = sample_diffs,
      getrawdiff = (\<lambda>i. ''raw'' @ str_int i),
      check_node = (\<lambda>n. Inr n),
      short_node = take 12,
      prepare_body = (\<lambda>title summary i url parent. title),
      prompt = (\<lambda>q opts. ''Yes''),
      repo_apply_patch = (\<lambda>rawd body a d. True)\<rparr>"

definition sample_cfg :: config where
  "sample_cfg = \<lparr>always_full_stack = False, apply_patch_to = ''base''\<rparr>"

definition sample_args :: args where
  "sample_args =
     \<lparr>revision_id = 2, raw = False, no_commit = False, apply_to = None, no_parents = False,
      no_children = False, no_dependencies = False, include_abandoned = False, yes = False\<rparr>"

text \<open>The same stack on a repository that rejects the patch of revision 2.\<close>

definition second_fails_env :: env where
  "second_fails_env = sample_env\<lparr>repo_apply_patch := (\<lambda>rawd body a d. body \<noteq> ''B'')\<rparr>"

section \<open>Properties of \<^verbatim>\<open>check_revision_id\<close>\<close>

lemma takeWhile_stop: "ys = [] \<or> \<not> P (hd ys) \<Longrightarrow> takeWhile P ys = []"
  by (cases ys) auto

lemma takeWhile_run:
  "list_all P xs \<Longrightarrow> ys = [] \<or> \<not> P (hd ys) \<Longrightarrow> takeWhile P (xs @ ys) = xs"
  by (simp add: list_all_iff takeWhile_append2 takeWhile_stop)

lemma dropWhile_hd: "dropWhile P xs = [] \<or> \<not> P (hd (dropWhile P xs))"
  using hd_dropWhile by blast

lemma list_all_takeWhile: "list_all P (takeWhile P xs)"
  by (induction xs) auto

lemma strip_prefix_Some: "strip_prefix p s = Some t \<longleftrightarrow> s = p @ t"
  by (auto simp: strip_prefix_def) (metis append_take_drop_id)

lemma ascii_not_digit:
  assumes "ascii_digits py"
  shows "\<not> is_digit py (cp (CHR ''D''))" "\<not> is_digit py (cp (CHR ''h''))"
proof -
  have "decimal py 68 = None" "decimal py 104 = None"
    using assms unfolding ascii_digits_def by simp_all
  then show "\<not> is_digit py (cp (CHR ''D''))" "\<not> is_digit py (cp (CHR ''h''))"
    by (simp_all add: is_digit_def cp_def)
qed

lemma match_number_iff:
  assumes a: "ascii_digits py" and ns: "\<not> newline_slip py v"
  shows "match_number py v = Some ds \<longleftrightarrow> ds \<noteq> [] \<and> list_all (is_digit py) ds \<and> number_shape v ds"
proof
  assume m: "match_number py v = Some ds"
  define s where "s = (case v of [] \<Rightarrow> [] | c # cs \<Rightarrow> if c = cp (CHR ''D'') then cs else v)"
  from m have ds: "ds = takeWhile (is_digit py) s" "ds \<noteq> []"
    and rest: "dropWhile (is_digit py) s = [] \<or> dropWhile (is_digit py) s = [cp newline]"
    by (auto simp: match_number_def s_def Let_def split: if_splits)
  have sv: "(s = v \<and> (v = [] \<or> hd v \<noteq> cp (CHR ''D''))) \<or> v = cp (CHR ''D'') # s"
    by (auto simp: s_def split: list.splits)
  have seq: "s = ds @ dropWhile (is_digit py) s" by (simp add: ds)
  have digits: "list_all (is_digit py) ds"
    unfolding ds(1) by (rule list_all_takeWhile)
  have "dropWhile (is_digit py) s \<noteq> [cp newline]"
  proof
    assume "dropWhile (is_digit py) s = [cp newline]"
    with seq have s: "s = ds @ [cp newline]" by simp
    from sv have "newline_slip py v"
    proof
      assume "s = v \<and> (v = [] \<or> hd v \<noteq> cp (CHR ''D''))"
      with s ds(2) have v: "v = ds @ [cp newline]" and h: "hd ds \<noteq> cp (CHR ''D'')"
        by auto
      from h ds(2) have "(case ds of [] \<Rightarrow> [] | c # cs \<Rightarrow> if c = cp (CHR ''D'') then cs else ds) = ds"
        by (cases ds) auto
      with ds(2) digits show ?thesis
        unfolding newline_slip_def v by (simp add: Let_def)
    next
      assume "v = cp (CHR ''D'') # s"
      with s have v: "v = (cp (CHR ''D'') # ds) @ [cp newline]" by simp
      from ds(2) digits show ?thesis
        unfolding newline_slip_def v by (simp add: Let_def)
    qed
    with ns show False by simp
  qed
  with rest have "dropWhile (is_digit py) s = []" by blast
  with seq have "s = ds" by (metis append_Nil2)
  have shape: "number_shape v ds"
    using sv unfolding \<open>s = ds\<close> number_shape_def by blast
  with digits ds(2) show "ds \<noteq> [] \<and> list_all (is_digit py) ds \<and> number_shape v ds"
    by blast
next
  assume h: "ds \<noteq> [] \<and> list_all (is_digit py) ds \<and> number_shape v ds"
  then have all: "\<forall>x\<in>set ds. is_digit py x" and ne: "ds \<noteq> []"
    by (simp_all add: list_all_iff)
  from all ne have "is_digit py (hd ds)" by simp
  with ascii_not_digit(1) [OF a] have hd: "hd ds \<noteq> cp (CHR ''D'')" by metis
  from h consider "v = ds" | "v = cp (CHR ''D'') # ds" by (auto simp: number_shape_def)
  then have eq: "(case v of [] \<Rightarrow> [] | c # cs \<Rightarrow> if c = cp (CHR ''D'') then cs else v) = ds"
  proof cases
    case 1
    with ne hd show ?thesis by (cases ds) auto
  next
    case 2
    then show ?thesis by simp
  qed
  have tw: "takeWhile (is_digit py) ds = ds" "dropWhile (is_digit py) ds = []"
    using all by simp_all
  show "match_number py v = Some ds"
    unfolding match_number_def Let_def eq tw by (simp add: ne)
qed

lemma match_url_unfold:
  "match_url py v = Some ds \<longleftrightarrow>
     (\<exists>s0 s2 s4. strip_prefix (ustr ''http'') v = Some s0
        \<and> strip_prefix (ustr ''://'')
             (case s0 of [] \<Rightarrow> [] | c # cs \<Rightarrow> if c = cp (CHR ''s'') then cs else s0) = Some s2
        \<and> takeWhile (\<lambda>c. c \<noteq> cp (CHR ''/'')) s2 \<noteq> []
        \<and> strip_prefix (ustr ''/D'') (dropWhile (\<lambda>c. c \<noteq> cp (CHR ''/'')) s2) = Some s4
        \<and> ds = takeWhile (is_digit py) s4 \<and> ds \<noteq> [])"
  unfolding match_url_def Let_def
  by (auto split: option.splits)

lemma optional_s:
  "(case s0 of [] \<Rightarrow> [] | c # cs \<Rightarrow> if c = cp (CHR ''s'') then cs else s0) = s1 \<Longrightarrow>
   ustr ''http'' @ s0 = ustr ''http'' @ s1 \<or> ustr ''http'' @ s0 = ustr ''https'' @ s1"
  by (auto simp: ustr_def split: list.splits if_splits)

lemma match_url_shape:
  assumes m: "match_url py v = Some ds"
  shows "ds \<noteq> [] \<and> list_all (is_digit py) ds \<and> url_shape py v ds"
proof -
  from m obtain s0 s2 s4 where s0: "v = ustr ''http'' @ s0"
    and s2: "(case s0 of [] \<Rightarrow> [] | c # cs \<Rightarrow> if c = cp (CHR ''s'') then cs else s0)
               = ustr ''://'' @ s2"
    and host: "takeWhile (\<lambda>c. c \<noteq> cp (CHR ''/'')) s2 \<noteq> []"
    and s4: "dropWhile (\<lambda>c. c \<noteq> cp (CHR ''/'')) s2 = ustr ''/D'' @ s4"
    and ds: "ds = takeWhile (is_digit py) s4" "ds \<noteq> []"
    unfolding match_url_unfold strip_prefix_Some by blast
  define host where "host = takeWhile (\<lambda>c. c \<noteq> cp (CHR ''/'')) s2"
  define rest where "rest = dropWhile (is_digit py) s4"
  have "s2 = host @ dropWhile (\<lambda>c. c \<noteq> cp (CHR ''/'')) s2"
    unfolding host_def by simp
  then have s2_eq: "s2 = host @ ustr ''/D'' @ s4"
    unfolding s4 .
  have nohost: "cp (CHR ''/'') \<notin> set host"
    unfolding host_def by (auto dest: set_takeWhileD)
  have s4_eq: "s4 = ds @ rest"
    unfolding ds(1) rest_def by simp
  have rest: "rest = [] \<or> \<not> is_digit py (hd rest)"
    unfolding rest_def by (rule dropWhile_hd)
  from optional_s [OF s2] have
    "v = ustr ''http'' @ ustr ''://'' @ s2 \<or> v = ustr ''https'' @ ustr ''://'' @ s2"
    unfolding s0 .
  then have "v = ustr ''http'' @ ustr ''://'' @ host @ ustr ''/D'' @ ds @ rest
     \<or> v = ustr ''https'' @ ustr ''://'' @ host @ ustr ''/D'' @ ds @ rest"
    using s2_eq s4_eq by blast
  with host nohost rest have "url_shape py v ds"
    unfolding url_shape_def host_def [symmetric] by blast
  moreover have "list_all (is_digit py) ds"
    unfolding ds(1) by (rule list_all_takeWhile)
  ultimately show ?thesis
    using ds(2) by blast
qed

lemma match_url_built:
  assumes ds: "ds \<noteq> []" "list_all (is_digit py) ds"
    and sch: "sch = ustr ''http'' \<or> sch = ustr ''https''"
    and host: "host \<noteq> []" "cp (CHR ''/'') \<notin> set host"
    and rest: "rest = [] \<or> \<not> is_digit py (hd rest)"
  shows "match_url py (sch @ ustr ''://'' @ host @ ustr ''/D'' @ ds @ rest) = Some ds"
proof -
  let ?s2 = "host @ ustr ''/D'' @ ds @ rest"
  have p1: "\<exists>s0. strip_prefix (ustr ''http'') (sch @ ustr ''://'' @ ?s2) = Some s0
     \<and> (case s0 of [] \<Rightarrow> [] | c # cs \<Rightarrow> if c = cp (CHR ''s'') then cs else s0)
         = ustr ''://'' @ ?s2"
    using sch by (auto simp: strip_prefix_def ustr_def cp_def)
  have tw_host: "takeWhile (\<lambda>c. c \<noteq> cp (CHR ''/'')) ?s2 = host"
    using host(2) by (subst takeWhile_append2) (auto simp: ustr_def)
  have dw_host: "dropWhile (\<lambda>c. c \<noteq> cp (CHR ''/'')) ?s2 = ustr ''/D'' @ ds @ rest"
    using host(2) by (subst dropWhile_append2) (auto simp: ustr_def)
  have tw_ds: "takeWhile (is_digit py) (ds @ rest) = ds"
    using ds(2) rest by (rule takeWhile_run)
  from p1 obtain s0 where s0: "strip_prefix (ustr ''http'') (sch @ ustr ''://'' @ ?s2) = Some s0"
    "(case s0 of [] \<Rightarrow> [] | c # cs \<Rightarrow> if c = cp (CHR ''s'') then cs else s0) = ustr ''://'' @ ?s2"
    by blast
  have p2: "strip_prefix (ustr ''://'') (ustr ''://'' @ ?s2) = Some ?s2"
    unfolding strip_prefix_Some ..
  have p3: "strip_prefix (ustr ''/D'') (ustr ''/D'' @ ds @ rest) = Some (ds @ rest)"
    unfolding strip_prefix_Some ..
  show ?thesis
    unfolding match_url_unfold
    apply (rule exI [of _ s0], rule exI [of _ ?s2], rule exI [of _ "ds @ rest"])
    unfolding s0 p2 tw_host dw_host p3 tw_ds
    using host(1) ds(1) by simp
qed

lemma match_url_iff:
  "match_url py v = Some ds \<longleftrightarrow> ds \<noteq> [] \<and> list_all (is_digit py) ds \<and> url_shape py v ds"
proof
  assume "match_url py v = Some ds"
  then show "ds \<noteq> [] \<and> list_all (is_digit py) ds \<and> url_shape py v ds"
    by (rule match_url_shape)
next
  assume a: "ds \<noteq> [] \<and> list_all (is_digit py) ds \<and> url_shape py v ds"
  then obtain sch host rest where "sch = ustr ''http'' \<or> sch = ustr ''https''"
    "host \<noteq> []" "cp (CHR ''/'') \<notin> set host" "rest = [] \<or> \<not> is_digit py (hd rest)"
    and v: "v = sch @ ustr ''://'' @ host @ ustr ''/D'' @ ds @ rest"
    unfolding url_shape_def by blast
  with a show "match_url py v = Some ds"
    unfolding v by (intro match_url_built) blast+
qed

lemma url_shape_not_number:
  assumes "ascii_digits py" "url_shape py v ds"
  shows "match_number py v = None"
proof -
  from assms(2) obtain t where "v = cp (CHR ''h'') # t"
    unfolding url_shape_def by (auto simp: ustr_def)
  moreover have "cp (CHR ''h'') \<noteq> cp (CHR ''D'')"
    by (simp add: cp_def)
  ultimately show ?thesis
    using ascii_not_digit(2) [OF assms(1)] by (simp add: match_number_def)
qed

text \<open>
  Claim C8, as amended. Let the interpreter's table of decimal digits agree with Unicode
  on ASCII, and let the input not be a number spelling followed by a newline. Then
  \<^verbatim>\<open>check_revision_id\<close> returns \<open>n\<close> exactly when the input is a non-empty run \<open>ds\<close> of
  Unicode decimal digits with an optional \<^verbatim>\<open>D\<close> in front, or starts with \<^verbatim>\<open>http://\<close> or
  \<^verbatim>\<open>https://\<close>, a non-empty host without \<^verbatim>\<open>/\<close>, then \<^verbatim>\<open>/D\<close> and a run \<open>ds\<close> of
  decimal digits (anything but a digit may follow), \<open>ds\<close> is not longer than the limit of
  \<^verbatim>\<open>int\<close>, and \<open>n\<close> is the decimal value of \<open>ds\<close>. With such a \<open>ds\<close> longer than the
  limit it raises \<^verbatim>\<open>ValueError\<close>. On every other such input it raises
  \<^verbatim>\<open>ArgumentTypeError\<close> with the message that quotes the input.
\<close>

theorem check_revision_id_accepts:
  assumes "ascii_digits py" and "\<not> newline_slip py v"
  shows "(check_revision_id py v = Inr n \<longleftrightarrow>
           (\<exists>ds. ds \<noteq> [] \<and> list_all (is_digit py) ds
              \<and> (number_shape v ds \<or> url_shape py v ds)
              \<and> \<not> over_limit py ds \<and> n = int_of_digits py ds))
       \<and> (check_revision_id py v = Inl ValueError \<longleftrightarrow>
           (\<exists>ds. ds \<noteq> [] \<and> list_all (is_digit py) ds
              \<and> (number_shape v ds \<or> url_shape py v ds) \<and> over_limit py ds))
       \<and> ((\<exists>m. check_revision_id py v = Inr m) \<or> check_revision_id py v = Inl ValueError
           \<or> check_revision_id py v =
               Inl (ArgumentTypeError
                     (ustr ''Invalid Revision ID (expected number or URL): '' @ v
                        @ [cp newline])))"
proof -
  define sel where
    "sel = (case match_number py v of Some ds \<Rightarrow> Some ds | None \<Rightarrow> match_url py v)"
  let ?P = "\<lambda>ds. ds \<noteq> [] \<and> list_all (is_digit py) ds
      \<and> (number_shape v ds \<or> url_shape py v ds)"
  have c: "check_revision_id py v =
      (case sel of Some ds \<Rightarrow> py_int py ds
       | None \<Rightarrow> Inl (ArgumentTypeError
                     (ustr ''Invalid Revision ID (expected number or URL): '' @ v
                        @ [cp newline])))"
    by (simp add: check_revision_id_def sel_def split: option.splits)
  have sel: "sel = Some ds \<longleftrightarrow> ?P ds" for ds
  proof
    assume "sel = Some ds"
    then consider "match_number py v = Some ds" | "match_url py v = Some ds"
      by (auto simp: sel_def split: option.splits)
    then show "?P ds"
    proof cases
      case 1
      then show ?thesis using match_number_iff [OF assms, of ds] by blast
    next
      case 2
      then show ?thesis using match_url_iff [of py v ds] by blast
    qed
  next
    assume p: "?P ds"
    then have "number_shape v ds \<or> url_shape py v ds" by blast
    then show "sel = Some ds"
    proof
      assume "number_shape v ds"
      with p have "match_number py v = Some ds"
        using match_number_iff [OF assms, of ds] by blast
      then show ?thesis by (simp add: sel_def)
    next
      assume u: "url_shape py v ds"
      with p have "match_url py v = Some ds"
        using match_url_iff [of py v ds] by blast
      with url_shape_not_number [OF assms(1) u] show ?thesis
        by (simp add: sel_def)
    qed
  qed
  have one: "check_revision_id py v = Inr n \<longleftrightarrow>
      (\<exists>ds. ?P ds \<and> \<not> over_limit py ds \<and> n = int_of_digits py ds)"
    unfolding c sel [symmetric]
    by (cases sel) (auto simp: py_int_def)
  have two: "check_revision_id py v = Inl ValueError \<longleftrightarrow> (\<exists>ds. ?P ds \<and> over_limit py ds)"
    unfolding c sel [symmetric]
    by (cases sel) (auto simp: py_int_def)
  have three: "(\<exists>m. check_revision_id py v = Inr m) \<or> check_revision_id py v = Inl ValueError
           \<or> check_revision_id py v =
               Inl (ArgumentTypeError
                     (ustr ''Invalid Revision ID (expected number or URL): '' @ v
                        @ [cp newline]))"
    unfolding c by (cases sel) (auto simp: py_int_def)
  from one two three show ?thesis
    by blast
qed

text \<open>
  The amended claim on the sample interpreter: \<^verbatim>\<open>https://phab.example/D123?x\<close>,
  \<^verbatim>\<open>123\<close>, \<^verbatim>\<open>D123\<close> and the Arabic-Indic spelling of 123 give 123, and a run of 4301
  digits raises \<^verbatim>\<open>ValueError\<close>.
\<close>

theorem check_revision_id_accepts_witness:
  "ascii_digits sample_python
   \<and> \<not> newline_slip sample_python (ustr ''https://phab.example/D123?x'')
   \<and> url_shape sample_python (ustr ''https://phab.example/D123?x'') (ustr ''123'')
   \<and> check_revision_id sample_python (ustr ''https://phab.example/D123?x'') = Inr 123
   \<and> check_revision_id sample_python (ustr ''123'') = Inr 123
   \<and> check_revision_id sample_python (ustr ''D123'') = Inr 123
   \<and> check_revision_id sample_python [1633, 1634, 1635] = Inr 123
   \<and> over_limit sample_python (replicate 4301 49)
   \<and> check_revision_id sample_python (replicate 4301 49) = Inl ValueError"
proof -
  let ?url = "ustr ''https://phab.example/D123?x''"
  let ?long = "replicate 4301 (49 :: nat)"
  have a: "ascii_digits sample_python"
    by (simp add: ascii_digits_def sample_python_def)
  have d: "is_digit sample_python c \<longleftrightarrow> (48 \<le> c \<and> c \<le> 57) \<or> (1632 \<le> c \<and> c \<le> 1641)" for c
    by (auto simp: is_digit_def sample_python_def)
  have dv: "decimal sample_python c =
      (if 48 \<le> c \<and> c \<le> 57 then Some (c - 48)
       else if 1632 \<le> c \<and> c \<le> 1641 then Some (c - 1632) else None)" for c
    by (simp add: sample_python_def)
  have lim: "int_max_str_digits sample_python = 4300"
    by (simp add: sample_python_def)
  have n1: "\<not> newline_slip sample_python ?url"
    by (simp add: newline_slip_def ustr_def cp_def)
  have n2: "\<not> newline_slip sample_python [1633, 1634, 1635]"
    by (simp add: newline_slip_def cp_def)
  have n3: "\<not> newline_slip sample_python ?long"
    by (simp add: newline_slip_def cp_def)
  have u: "url_shape sample_python ?url (ustr ''123'')"
    unfolding url_shape_def
    by (intro exI [of _ "ustr ''https''"] exI [of _ "ustr ''phab.example''"]
          exI [of _ "ustr ''?x''"])
       (simp add: d ustr_def cp_def)
  have v1: "ustr ''123'' \<noteq> [] \<and> list_all (is_digit sample_python) (ustr ''123'')
      \<and> \<not> over_limit sample_python (ustr ''123'')
      \<and> (123 :: int) = int_of_digits sample_python (ustr ''123'')"
    by (simp add: d dv lim ustr_def cp_def over_limit_def int_of_digits_def)
  have v2: "[1633, 1634, 1635] \<noteq> [] \<and> list_all (is_digit sample_python) [1633, 1634, 1635]
      \<and> number_shape [1633, 1634, 1635] [1633, 1634, 1635]
      \<and> \<not> over_limit sample_python [1633, 1634, 1635]
      \<and> (123 :: int) = int_of_digits sample_python [1633, 1634, 1635]"
    by (simp add: d dv lim number_shape_def over_limit_def int_of_digits_def)
  have v3: "?long \<noteq> [] \<and> list_all (is_digit sample_python) ?long
      \<and> number_shape ?long ?long \<and> over_limit sample_python ?long"
    by (simp add: d lim list_all_iff number_shape_def over_limit_def)
  from check_revision_id_accepts [OF a n1, of 123] u v1
  have r1: "check_revision_id sample_python ?url = Inr 123"
    by blast
  from check_revision_id_accepts [OF a n2, of 123] v2
  have r2: "check_revision_id sample_python [1633, 1634, 1635] = Inr 123"
    by blast
  from check_revision_id_accepts [OF a n3, of 0] v3
  have r3: "check_revision_id sample_python ?long = Inl ValueError"
    by blast
  have r4: "check_revision_id sample_python (ustr ''123'') = Inr 123"
    "check_revision_id sample_python (ustr ''D123'') = Inr 123"
    by code_simp+
  from a n1 u r1 r2 r3 r4 v3 show ?thesis
    by blast
qed

text \<open>
  Claim C8 as stated fails: a URL that contains \<^verbatim>\<open>D123\<close> after a longer path is
  rejected, a URL that contains \<^verbatim>\<open>D123\<close> as part of \<^verbatim>\<open>D1234\<close> yields 1234, and two
  strings that are none of the three spellings are accepted as 123: \<^verbatim>\<open>123\<close> followed
  by a newline, and 123 written in Arabic-Indic digits.
\<close>

theorem check_revision_id_counterexample:
  "check_revision_id sample_python (ustr ''https://phab.example/differential/D123'')
     = Inl (ArgumentTypeError (ustr ''Invalid Revision ID (expected number or URL): ''
              @ ustr ''https://phab.example/differential/D123'' @ [10]))
   \<and> check_revision_id sample_python (ustr ''https://phab.example/D1234'') = Inr 1234
   \<and> check_revision_id sample_python (ustr ''123'' @ [10]) = Inr 123
   \<and> check_revision_id sample_python [1633, 1634, 1635] = Inr 123"
  by code_simp

section \<open>Steps and their events\<close>

lemma fst_ret [simp]: "fst (ret x) = []"
  and snd_ret [simp]: "snd (ret x) = Inr x"
  by (simp_all add: ret_def)

lemma fst_raise [simp]: "fst (raise e) = []"
  and snd_raise [simp]: "snd (raise e) = Inl e"
  by (simp_all add: raise_def)

lemma fst_emits [simp]: "fst (emits es k) = es @ fst k"
  and snd_emits [simp]: "snd (emits es k) = snd k"
  by (simp_all add: emits_def)

lemma fst_bind_res:
  "fst (bind_res m f) = fst m @ (case snd m of Inl e \<Rightarrow> [] | Inr x \<Rightarrow> fst (f x))"
  by (simp add: bind_res_def split: sum.splits)

lemma snd_bind_res:
  "snd (bind_res m f) = (case snd m of Inl e \<Rightarrow> Inl e | Inr x \<Rightarrow> snd (f x))"
  by (simp add: bind_res_def split: sum.splits)

lemma bind_res_Inl: "snd m = Inl e \<Longrightarrow> bind_res m f = (fst m, Inl e)"
  by (simp add: bind_res_def)

lemma bind_res_Inr: "snd m = Inr x \<Longrightarrow> bind_res m f = (fst m @ fst (f x), snd (f x))"
  by (simp add: bind_res_def emits_def)

section \<open>The confirmation of children\<close>

lemma confirm_children_yes:
  "yes args \<Longrightarrow> confirm_children env cfg args children = ret (cfg, children)"
  by (simp add: confirm_children_def)

lemma confirm_children_always:
  "always_full_stack cfg \<Longrightarrow> confirm_children env cfg args children = ret (cfg, children)"
  by (simp add: confirm_children_def)

lemma confirm_children_none:
  "confirm_children env cfg args [] = ret (cfg, [])"
  by (simp add: confirm_children_def)

lemma confirm_children_asks:
  assumes "\<not> yes args" "\<not> always_full_stack cfg" "children \<noteq> []"
  shows "confirm_children env cfg args children =
     (let answer = prompt env (children_question args children) [''Yes'', ''No'', ''Always''] in
      ([Prompt (children_question args children) [''Yes'', ''No'', ''Always'']]
         @ (if answer = ''Always'' then [ConfigWrite] else []),
       Inr (if answer = ''Always'' then cfg\<lparr>always_full_stack := True\<rparr> else cfg,
            if answer = ''No'' then [] else children)))"
  using assms by (simp add: confirm_children_def Let_def emits_def ret_def)

lemma effective_apply_to_cfg:
  "effective_apply_to (cfg\<lparr>always_full_stack := b\<rparr>) args = effective_apply_to cfg args"
  by (simp add: effective_apply_to_def split: option.splits)

lemma select_base_cfg:
  "select_base env (cfg\<lparr>always_full_stack := b\<rparr>) args diffs revs t
     = select_base env cfg args diffs revs t"
  unfolding select_base_def effective_apply_to_cfg ..

lemma apply_stack_cfg:
  "apply_stack env (cfg\<lparr>always_full_stack := b\<rparr>) args revs = apply_stack env cfg args revs"
  unfolding apply_stack_def select_base_cfg ..

lemma resolve_stack_yes:
  assumes "yes args"
  shows "resolve_stack env cfg args =
     (fst (resolve_stack env cfg0 args),
      case snd (resolve_stack env cfg0 args) of Inl e \<Rightarrow> Inl e | Inr (c, revs) \<Rightarrow> Inr (cfg, revs))"
  using assms
  by (simp add: resolve_stack_def confirm_children_yes fst_bind_res snd_bind_res prod_eq_iff
        split: list.splits sum.splits)

lemma prompt_free_preflight: "\<not> list_ex is_prompt (fst (preflight env args))"
  by (simp add: preflight_def split: option.splits)

lemma prompt_free_fetch_parents: "\<not> list_ex is_prompt (fst (fetch_parents env args r))"
  by (simp add: fetch_parents_def split: option.splits)

lemma prompt_free_fetch_children: "\<not> list_ex is_prompt (fst (fetch_children env args r))"
  by (simp add: fetch_children_def split: option.splits)

lemma prompt_free_fetch_related: "\<not> list_ex is_prompt (fst (fetch_related env revs ps cs))"
  by (simp add: fetch_related_def fst_bind_res)

lemma prompt_free_resolve_stack:
  assumes "yes args \<or> always_full_stack cfg"
  shows "\<not> list_ex is_prompt (fst (resolve_stack env cfg args))"
proof -
  have c: "confirm_children env cfg args children = ret (cfg, children)" for children
    using assms by (auto simp: confirm_children_def)
  show ?thesis
    by (simp add: resolve_stack_def c fst_bind_res prompt_free_fetch_parents
        prompt_free_fetch_children prompt_free_fetch_related split: list.splits sum.splits)
qed

lemma prompt_free_apply_one: "\<not> list_ex is_prompt (fst (apply_one env args diffs l p r))"
  by (simp add: apply_one_def fst_bind_res Let_def split: option.splits list.splits sum.splits)

lemma prompt_free_apply_revisions:
  "\<not> list_ex is_prompt (fst (apply_revisions env args diffs l p revs))"
  by (induction revs arbitrary: p) (simp_all add: prompt_free_apply_one split: sum.splits)

lemma prompt_free_select_base:
  "\<not> list_ex is_prompt (fst (select_base env cfg args diffs revs t))"
  by (simp add: select_base_def choose_base_def validate_base_def fst_bind_res
        split: option.splits sum.splits)

lemma prompt_free_check_commit_info:
  "\<not> list_ex is_prompt (fst (check_commit_info diffs revs))"
  by (induction revs) (simp_all split: option.splits)

lemma prompt_free_apply_stack:
  "\<not> list_ex is_prompt (fst (apply_stack env cfg args revs))"
  by (simp add: apply_stack_def fst_bind_res log_patching_def pull_diffs_def
        prompt_free_check_commit_info prompt_free_select_base prompt_free_apply_revisions
        split: sum.splits)

lemma prompt_free_patch:
  assumes "yes args \<or> always_full_stack cfg"
  shows "\<not> list_ex is_prompt (fst (patch env cfg args))"
  using prompt_free_resolve_stack [OF assms, of env]
  by (simp add: patch_def prompt_free_preflight prompt_free_apply_stack
        split: sum.splits prod.splits)

lemma patch_preflight_Inl:
  "snd (preflight env args) = Inl e \<Longrightarrow> patch env cfg args = (fst (preflight env args), cfg, Inl e)"
  by (simp add: patch_def)

lemma patch_resolve_Inl:
  "snd (preflight env args) = Inr u \<Longrightarrow> snd (resolve_stack env cfg args) = Inl e \<Longrightarrow>
   patch env cfg args = (fst (preflight env args) @ fst (resolve_stack env cfg args), cfg, Inl e)"
  by (simp add: patch_def)

lemma patch_Inr:
  "snd (preflight env args) = Inr u \<Longrightarrow> snd (resolve_stack env cfg args) = Inr (cfg', revs) \<Longrightarrow>
   patch env cfg args =
     (fst (preflight env args) @ fst (resolve_stack env cfg args)
        @ fst (apply_stack env cfg' args revs),
      cfg', snd (apply_stack env cfg' args revs))"
  by (simp add: patch_def)

lemma patch_yes_cfg:
  assumes y: "yes args"
  shows "patch env (cfg\<lparr>always_full_stack := b\<rparr>) args
     = (fst (patch env cfg args),
        (fst (snd (patch env cfg args)))\<lparr>always_full_stack := b\<rparr>,
        snd (snd (patch env cfg args)))"
    and "fst (snd (patch env cfg args)) = cfg"
proof -
  let ?cfg' = "cfg\<lparr>always_full_stack := b\<rparr>"
  have r: "resolve_stack env c args =
     (fst (resolve_stack env cfg args),
      case snd (resolve_stack env cfg args) of Inl e \<Rightarrow> Inl e | Inr (c0, revs) \<Rightarrow> Inr (c, revs))"
    for c
    by (rule resolve_stack_yes [OF y])
  have both: "patch env ?cfg' args
     = (fst (patch env cfg args),
        (fst (snd (patch env cfg args)))\<lparr>always_full_stack := b\<rparr>,
        snd (snd (patch env cfg args)))
     \<and> fst (snd (patch env cfg args)) = cfg"
  proof (cases "snd (preflight env args)")
    case (Inl e)
    then show ?thesis by (simp add: patch_preflight_Inl)
  next
    case pre: (Inr u)
    show ?thesis
    proof (cases "snd (resolve_stack env cfg args)")
      case (Inl e)
      then have "snd (resolve_stack env ?cfg' args) = Inl e"
        and "fst (resolve_stack env ?cfg' args) = fst (resolve_stack env cfg args)"
        by (simp_all add: r [of ?cfg'])
      with pre Inl show ?thesis by (simp add: patch_resolve_Inl)
    next
      case (Inr p)
      obtain c0 revs where p: "p = (c0, revs)" by (cases p)
      from Inr p have "snd (resolve_stack env cfg args) = Inr (cfg, revs)"
        by (subst r [of cfg]) simp
      moreover from Inr p have "snd (resolve_stack env ?cfg' args) = Inr (?cfg', revs)"
        and "fst (resolve_stack env ?cfg' args) = fst (resolve_stack env cfg args)"
        by (simp_all add: r [of ?cfg'])
      ultimately show ?thesis
        using pre by (simp add: patch_Inr [where u = u] apply_stack_cfg)
    qed
  qed
  from both show "patch env ?cfg' args
     = (fst (patch env cfg args),
        (fst (snd (patch env cfg args)))\<lparr>always_full_stack := b\<rparr>,
        snd (snd (patch env cfg args)))"
    and "fst (snd (patch env cfg args)) = cfg"
    by blast+
qed

text \<open>
  Claim C10. With \<^verbatim>\<open>--yes\<close> the run never prompts, \<^verbatim>\<open>confirm_children\<close> keeps every
  child and leaves the configuration alone, and the events and the outcome of the run are
  the same whatever the persisted \<^verbatim>\<open>always_full_stack\<close> is. Without \<^verbatim>\<open>--yes\<close> the
  preference decides: when it is set nothing is asked and all children are kept, and when
  it is not set and there are children the prompt is shown, where the answer
  \<^verbatim>\<open>Always\<close> sets and writes the preference and \<^verbatim>\<open>No\<close> drops the children.
\<close>

theorem yes_flag_precedence:
  "(yes args \<longrightarrow>
      \<not> list_ex is_prompt (fst (patch env cfg args))
      \<and> confirm_children env cfg args children = ret (cfg, children)
      \<and> fst (patch env (cfg\<lparr>always_full_stack := b\<rparr>) args) = fst (patch env cfg args)
      \<and> snd (snd (patch env (cfg\<lparr>always_full_stack := b\<rparr>) args)) = snd (snd (patch env cfg args))
      \<and> fst (snd (patch env cfg args)) = cfg)
   \<and> (\<not> yes args \<and> always_full_stack cfg \<longrightarrow>
        confirm_children env cfg args children = ret (cfg, children))
   \<and> (\<not> yes args \<and> \<not> always_full_stack cfg \<and> children \<noteq> [] \<longrightarrow>
        confirm_children env cfg args children =
          (let answer = prompt env (children_question args children) [''Yes'', ''No'', ''Always''] in
           ([Prompt (children_question args children) [''Yes'', ''No'', ''Always'']]
              @ (if answer = ''Always'' then [ConfigWrite] else []),
            Inr (if answer = ''Always'' then cfg\<lparr>always_full_stack := True\<rparr> else cfg,
                 if answer = ''No'' then [] else children))))"
proof (intro conjI impI)
  assume y: "yes args"
  show "\<not> list_ex is_prompt (fst (patch env cfg args))"
    using y by (simp add: prompt_free_patch)
  show "confirm_children env cfg args children = ret (cfg, children)"
    using y by (rule confirm_children_yes)
  show "fst (patch env (cfg\<lparr>always_full_stack := b\<rparr>) args) = fst (patch env cfg args)"
    by (simp add: patch_yes_cfg(1) [OF y])
  show "snd (snd (patch env (cfg\<lparr>always_full_stack := b\<rparr>) args)) = snd (snd (patch env cfg args))"
    by (simp add: patch_yes_cfg(1) [OF y])
  show "fst (snd (patch env cfg args)) = cfg"
    by (rule patch_yes_cfg(2) [OF y])
next
  assume "\<not> yes args \<and> always_full_stack cfg"
  then show "confirm_children env cfg args children = ret (cfg, children)"
    by (simp add: confirm_children_always)
next
  assume "\<not> yes args \<and> \<not> always_full_stack cfg \<and> children \<noteq> []"
  then show "confirm_children env cfg args children =
          (let answer = prompt env (children_question args children) [''Yes'', ''No'', ''Always''] in
           ([Prompt (children_question args children) [''Yes'', ''No'', ''Always'']]
              @ (if answer = ''Always'' then [ConfigWrite] else []),
            Inr (if answer = ''Always'' then cfg\<lparr>always_full_stack := True\<rparr> else cfg,
                 if answer = ''No'' then [] else children)))"
    by (simp add: confirm_children_asks)
qed

lemma dname_2: "dname 2 = ''D2''"
  by (simp add: dname_def str_int_def str_nat.simps digit_char_def)

text \<open>
  Claim C10 on the sample stack: with \<^verbatim>\<open>--yes\<close>, without it and the preference set,
  and without it, the preference unset and the answer \<^verbatim>\<open>Always\<close>.
\<close>

theorem yes_flag_precedence_witness:
  "yes (sample_args\<lparr>yes := True\<rparr>)
   \<and> \<not> list_ex is_prompt (fst (patch sample_env sample_cfg (sample_args\<lparr>yes := True\<rparr>)))
   \<and> fst (snd (patch sample_env sample_cfg (sample_args\<lparr>yes := True\<rparr>))) = sample_cfg
   \<and> (\<not> yes sample_args \<and> always_full_stack (sample_cfg\<lparr>always_full_stack := True\<rparr>))
   \<and> confirm_children sample_env (sample_cfg\<lparr>always_full_stack := True\<rparr>) sample_args [''rc'']
       = ([], Inr (sample_cfg\<lparr>always_full_stack := True\<rparr>, [''rc'']))
   \<and> (\<not> yes sample_args \<and> \<not> always_full_stack sample_cfg \<and> [''rc''] \<noteq> [])
   \<and> confirm_children (sample_env\<lparr>prompt := \<lambda>q opts. ''Always''\<rparr>) sample_cfg sample_args [''rc'']
       = ([Prompt ''Revision D2 has a child commit.  Would you like to patch all children?''
             [''Yes'', ''No'', ''Always''], ConfigWrite],
          Inr (sample_cfg\<lparr>always_full_stack := True\<rparr>, [''rc'']))"
  using yes_flag_precedence [of "sample_args\<lparr>yes := True\<rparr>" sample_env sample_cfg "[''rc'']" True]
    yes_flag_precedence [of sample_args sample_env "sample_cfg\<lparr>always_full_stack := True\<rparr>" "[''rc'']" True]
    yes_flag_precedence [of sample_args "sample_env\<lparr>prompt := \<lambda>q opts. ''Always''\<rparr>" sample_cfg "[''rc'']" True]
  by (simp add: sample_args_def sample_cfg_def sample_env_def children_question_def dname_2 ret_def)

section \<open>Non-linear dependencies\<close>

lemma fetch_free_preflight: "\<not> list_ex is_diff_fetch (fst (preflight env args))"
  by (simp add: preflight_def split: option.splits)

lemma fetch_parents_nonlinear:
  assumes "\<not> no_parents args" "\<not> no_dependencies args"
    and "get_ancestor_phids env (rev_phid revision) = None"
  shows "fetch_parents env args revision =
     ([Wait (''Fetching '' @ dname (revision_id args) @ [CHR 0x27] @ ''s parents..''),
       GetAncestorPhids (rev_phid revision)],
      Inl (Error (''Revision '' @ dname (revision_id args)
             @ '' has non-linear dependency relationships.'' @ [newline]
             @ ''Unable to patch the stack.'')))"
  using assms by (simp add: fetch_parents_def emits_def raise_def)

lemma resolve_stack_nonlinear:
  assumes "get_revisions_ids env [revision_id args] = revision # others"
    and "\<not> no_parents args" "\<not> no_dependencies args"
    and "get_ancestor_phids env (rev_phid revision) = None"
  shows "resolve_stack env cfg args =
     ([Wait (''Fetching '' @ dname (revision_id args) @ ''..''),
       GetRevisionsIds [revision_id args],
       Wait (''Fetching '' @ dname (revision_id args) @ [CHR 0x27] @ ''s parents..''),
       GetAncestorPhids (rev_phid revision)],
      Inl (Error (''Revision '' @ dname (revision_id args)
             @ '' has non-linear dependency relationships.'' @ [newline]
             @ ''Unable to patch the stack.'')))"
  unfolding resolve_stack_def assms(1) list.case
  by (simp add: fetch_parents_nonlinear [OF assms(2-4)] bind_res_def emits_def)

text \<open>
  Claim C3. When parents are requested and \<^verbatim>\<open>get_ancestor_phids\<close> raises
  \<^verbatim>\<open>NonLinearException\<close> for the target revision, the run ends with an exception and has
  called neither \<^verbatim>\<open>get_diffs\<close> nor \<^verbatim>\<open>differential.getrawdiff\<close>; when the checks of
  lines 46 to 65 passed, the exception is the \<^verbatim>\<open>Error\<close> of line 85.
\<close>

theorem nonlinear_ancestors_fatal:
  assumes "get_revisions_ids env [revision_id args] = revision # others"
    and "\<not> no_parents args" "\<not> no_dependencies args"
    and "get_ancestor_phids env (rev_phid revision) = None"
  shows "(\<exists>e. snd (snd (patch env cfg args)) = Inl e)
     \<and> \<not> list_ex is_diff_fetch (fst (patch env cfg args))
     \<and> (snd (preflight env args) = Inr () \<longrightarrow>
          snd (snd (patch env cfg args)) =
            Inl (Error (''Revision '' @ dname (revision_id args)
                   @ '' has non-linear dependency relationships.'' @ [newline]
                   @ ''Unable to patch the stack.'')))"
proof (cases "snd (preflight env args)")
  case (Inl e)
  then show ?thesis
    by (simp add: patch_preflight_Inl fetch_free_preflight)
next
  case (Inr u)
  note r = resolve_stack_nonlinear [OF assms, of cfg]
  have "snd (resolve_stack env cfg args) = Inl (Error (''Revision '' @ dname (revision_id args)
             @ '' has non-linear dependency relationships.'' @ [newline]
             @ ''Unable to patch the stack.''))"
    by (simp add: r)
  from patch_resolve_Inl [OF Inr this] show ?thesis
    by (simp add: fetch_free_preflight r)
qed

lemma warnings_append [simp]: "warnings (a @ b) = warnings a @ warnings b"
  by (simp add: warnings_def)

lemma warnings_Nil [simp]: "warnings [] = []"
  by (simp add: warnings_def)

lemma warnings_Cons [simp]: "warnings (e # t) = warning_of e @ warnings t"
  by (simp add: warnings_def)

lemma snd_fetch_related:
  "snd (fetch_related env revisions ps cs) =
     Inr ((if ps \<noteq> [] then rev (revisions @ get_revisions_phids env ps) else revisions)
          @ (if cs \<noteq> [] then get_revisions_phids env cs else []))"
  by (simp add: fetch_related_def snd_bind_res)

lemma warnings_fetch_related [simp]: "warnings (fst (fetch_related env revisions ps cs)) = []"
  by (simp add: fetch_related_def fst_bind_res)

lemma warnings_fetch_parents [simp]: "warnings (fst (fetch_parents env args r)) = []"
  by (simp add: fetch_parents_def split: option.splits)

lemma fetch_children_nonlinear:
  assumes "\<not> no_children args" "\<not> no_dependencies args"
    and "get_successor_phids env (rev_phid revision) (include_abandoned args) = None"
  shows "fetch_children env args revision =
     ([Wait (''Fetching '' @ dname (revision_id args) @ [CHR 0x27] @ ''s children..''),
       GetSuccessorPhids (rev_phid revision) (include_abandoned args),
       LogWarning (''Revision '' @ dname (revision_id args)
          @ '' has non-linear dependency relationships.'' @ [newline]
          @ ''Unable to apply child revisions.'')],
      Inr [])"
  using assms by (simp add: fetch_children_def emits_def ret_def)

lemma resolve_stack_steps:
  assumes "get_revisions_ids env [revision_id args] = revision # others"
    and "snd (fetch_parents env args revision) = Inr parents"
    and "snd (fetch_children env args revision) = Inr children"
    and "snd (confirm_children env cfg args children) = Inr (cfg', kept)"
  shows "snd (resolve_stack env cfg args) =
           Inr (cfg', (if parents \<noteq> [] then rev ((revision # others) @ get_revisions_phids env parents)
                      else revision # others)
                     @ (if kept \<noteq> [] then get_revisions_phids env kept else []))"
    and "fst (resolve_stack env cfg args) =
           [Wait (''Fetching '' @ dname (revision_id args) @ ''..''),
            GetRevisionsIds [revision_id args]]
           @ fst (fetch_parents env args revision)
           @ fst (fetch_children env args revision)
           @ fst (confirm_children env cfg args children)
           @ fst (fetch_related env (revision # others) parents kept)"
  unfolding resolve_stack_def assms(1) list.case
  using assms(2-4)
  by (simp_all add: snd_bind_res fst_bind_res snd_fetch_related)

text \<open>
  Claim C4. When children are requested and \<^verbatim>\<open>get_successor_phids\<close> raises
  \<^verbatim>\<open>NonLinearException\<close>, the stack is resolved to the parents, oldest first, and the
  target revision; the one warning of line 98 is logged, nothing is asked, and the run
  goes on to apply exactly that stack.
\<close>

theorem nonlinear_children_dropped:
  assumes "snd (preflight env args) = Inr ()"
    and "get_revisions_ids env [revision_id args] = [root]"
    and "snd (fetch_parents env args root) = Inr parents"
    and "\<not> no_children args" "\<not> no_dependencies args"
    and "get_successor_phids env (rev_phid root) (include_abandoned args) = None"
  shows "\<exists>revs. revs = (if parents = [] then [] else rev (get_revisions_phids env parents)) @ [root]
     \<and> snd (resolve_stack env cfg args) = Inr (cfg, revs)
     \<and> warnings (fst (resolve_stack env cfg args)) =
          [''Revision '' @ dname (revision_id args)
             @ '' has non-linear dependency relationships.'' @ [newline]
             @ ''Unable to apply child revisions.'']
     \<and> \<not> list_ex is_prompt (fst (resolve_stack env cfg args))
     \<and> patch env cfg args =
          (fst (preflight env args) @ fst (resolve_stack env cfg args)
             @ fst (apply_stack env cfg args revs),
           cfg, snd (apply_stack env cfg args revs))"
proof -
  let ?revs = "(if parents = [] then [] else rev (get_revisions_phids env parents)) @ [root]"
  note fc = fetch_children_nonlinear [OF assms(4-6)]
  have c: "snd (fetch_children env args root) = Inr []"
    by (simp add: fc)
  have k: "snd (confirm_children env cfg args []) = Inr (cfg, [])"
    by (simp add: confirm_children_none)
  note r = resolve_stack_steps [OF assms(2) assms(3) c k]
  have r1: "snd (resolve_stack env cfg args) = Inr (cfg, ?revs)"
    by (simp add: r(1))
  have r2: "warnings (fst (resolve_stack env cfg args)) =
          [''Revision '' @ dname (revision_id args)
             @ '' has non-linear dependency relationships.'' @ [newline]
             @ ''Unable to apply child revisions.'']"
    by (simp add: r(2) fc confirm_children_none)
  have r3: "\<not> list_ex is_prompt (fst (resolve_stack env cfg args))"
    by (simp add: r(2) fc confirm_children_none prompt_free_fetch_parents
          prompt_free_fetch_related)
  from patch_Inr [OF assms(1) r1] r1 r2 r3 show ?thesis
    by blast
qed

section \<open>The order of the resolved stack\<close>

text \<open>
  Claim C1. In a run that passed the checks, let the service return the one target revision, the ancestor handles \<open>ps\<close>
  and the descendant handles \<open>cs\<close> without \<^verbatim>\<open>NonLinearException\<close> (nearest first, as
  the service lists them), let the children be confirmed, and let
  \<^verbatim>\<open>get_revisions(phids=...)\<close> return one revision per handle, in order. Then the
  resolved stack is the parents reversed, the target, the children: it has
  \<open>length ps + length cs + 1\<close> revisions and the target is at index \<open>length ps\<close>.
  The rest of the run is lines 128 to 222 on exactly that stack.
\<close>

theorem linear_stack_order:
  assumes "snd (preflight env args) = Inr ()"
    and "get_revisions_ids env [revision_id args] = [root]"
    and "if no_parents args \<or> no_dependencies args then ps = []
         else get_ancestor_phids env (rev_phid root) = Some ps"
    and "if no_children args \<or> no_dependencies args then cs = []
         else get_successor_phids env (rev_phid root) (include_abandoned args) = Some cs"
    and "yes args \<or> always_full_stack cfg
         \<or> prompt env (children_question args cs) [''Yes'', ''No'', ''Always''] \<noteq> ''No''"
    and "map rev_phid (get_revisions_phids env ps) = ps"
    and "map rev_phid (get_revisions_phids env cs) = cs"
  shows "\<exists>cfg' revs. snd (resolve_stack env cfg args) = Inr (cfg', revs)
     \<and> revs = rev (get_revisions_phids env ps) @ [root] @ get_revisions_phids env cs
     \<and> map rev_phid revs = rev ps @ [rev_phid root] @ cs
     \<and> length revs = length ps + length cs + 1
     \<and> revs ! length ps = root
     \<and> patch env cfg args =
          (fst (preflight env args) @ fst (resolve_stack env cfg args)
             @ fst (apply_stack env cfg' args revs),
           cfg', snd (apply_stack env cfg' args revs))"
proof -
  have p: "snd (fetch_parents env args root) = Inr ps"
    using assms(3) by (auto simp: fetch_parents_def split: if_splits)
  have c: "snd (fetch_children env args root) = Inr cs"
    using assms(4) by (auto simp: fetch_children_def split: if_splits)
  have "\<exists>cfg'. snd (confirm_children env cfg args cs) = Inr (cfg', cs)"
  proof (cases "\<not> yes args \<and> cs \<noteq> [] \<and> \<not> always_full_stack cfg")
    case True
    with assms(5) have "prompt env (children_question args cs) [''Yes'', ''No'', ''Always''] \<noteq> ''No''"
      by blast
    with True show ?thesis
      by (simp add: confirm_children_asks Let_def)
  next
    case False
    then have "confirm_children env cfg args cs = ret (cfg, cs)"
      unfolding confirm_children_def by (simp only: if_False)
    then show ?thesis by simp
  qed
  then obtain cfg' where k: "snd (confirm_children env cfg args cs) = Inr (cfg', cs)"
    by blast
  have lp: "length (get_revisions_phids env ps) = length ps"
    using assms(6) by (metis length_map)
  have lc: "length (get_revisions_phids env cs) = length cs"
    using assms(7) by (metis length_map)
  have ep: "ps = [] \<Longrightarrow> get_revisions_phids env ps = []"
    using lp by simp
  have ec: "cs = [] \<Longrightarrow> get_revisions_phids env cs = []"
    using lc by simp
  let ?revs = "rev (get_revisions_phids env ps) @ [root] @ get_revisions_phids env cs"
  have r: "snd (resolve_stack env cfg args) = Inr (cfg', ?revs)"
    using resolve_stack_steps(1) [OF assms(2) p c k] ep ec by auto
  have m: "map rev_phid ?revs = rev ps @ [rev_phid root] @ cs"
    using assms(6,7) by (simp add: rev_map [symmetric])
  have l: "length ?revs = length ps + length cs + 1"
    using lp lc by simp
  have n: "?revs ! length ps = root"
    using lp by (simp add: nth_append)
  note e = patch_Inr [OF assms(1) r]
  from r m l n e show ?thesis by blast
qed

section \<open>Base selection\<close>

lemma find_base_None: "find_base rs = None \<longleftrightarrow> (\<forall>r\<in>set rs. ref_type r \<noteq> ''base'')"
  by (induction rs) auto

lemma find_base_first:
  "\<forall>x\<in>set pre. ref_type x \<noteq> ''base'' \<Longrightarrow> ref_type r = ''base'' \<Longrightarrow>
   find_base (pre @ r # post) = Some (ref_identifier r)"
  by (induction pre) auto

lemma mutation_free_preflight: "\<not> list_ex is_mutation (fst (preflight env args))"
  by (simp add: preflight_def split: option.splits)

lemma mutation_free_fetch_parents: "\<not> list_ex is_mutation (fst (fetch_parents env args r))"
  by (simp add: fetch_parents_def split: option.splits)

lemma mutation_free_fetch_children: "\<not> list_ex is_mutation (fst (fetch_children env args r))"
  by (simp add: fetch_children_def split: option.splits)

lemma mutation_free_confirm_children:
  "\<not> list_ex is_mutation (fst (confirm_children env cfg args cs))"
  by (simp add: confirm_children_def Let_def)

lemma mutation_free_fetch_related: "\<not> list_ex is_mutation (fst (fetch_related env revs ps cs))"
  by (simp add: fetch_related_def fst_bind_res)

lemma mutation_free_resolve_stack: "\<not> list_ex is_mutation (fst (resolve_stack env cfg args))"
  by (simp add: resolve_stack_def fst_bind_res mutation_free_fetch_parents
        mutation_free_fetch_children mutation_free_confirm_children mutation_free_fetch_related
        split: list.splits sum.splits prod.splits)

lemma mutation_free_check_commit_info:
  "\<not> list_ex is_mutation (fst (check_commit_info diffs revs))"
  by (induction revs) (simp_all split: option.splits)

lemma fst_check_commit_info [simp]: "fst (check_commit_info diffs revs) = []"
  by (induction revs) (simp_all split: option.splits)

lemma choose_base_absent:
  assumes "diffs (rev_diffPHID (hd revisions)) = Some d"
    and "\<forall>r\<in>set (get_refs d). ref_type r \<noteq> ''base''"
  shows "choose_base ''base'' diffs revisions =
     raise (Error (''Base commit not found in diff. ''
              @ ''Use `--apply-to here` to patch current commit.''))"
  using assms by (simp add: choose_base_def get_base_ref_def find_base_None [THEN iffD2])

lemma select_base_absent:
  assumes "effective_apply_to cfg args = ''base''"
    and "diffs (rev_diffPHID (hd revisions)) = Some d"
    and "\<forall>r\<in>set (get_refs d). ref_type r \<noteq> ''base''"
  shows "select_base env cfg args diffs revisions t =
     ([], Inl (Error (''Base commit not found in diff. ''
              @ ''Use `--apply-to here` to patch current commit.'')))"
  unfolding select_base_def assms(1) choose_base_absent [of diffs revisions d, OF assms(2,3)]
  by (simp add: bind_res_def raise_def)


lemma apply_stack_base_absent:
  assumes "\<not> raw args"
    and "effective_apply_to cfg args = ''base''"
    and "get_diffs env (map rev_diffPHID revisions) (rev_diffPHID (hd revisions)) = Some d"
    and "\<forall>r\<in>set (get_refs d). ref_type r \<noteq> ''base''"
  shows "\<exists>e. snd (apply_stack env cfg args revisions) = Inl e"
    and "\<not> list_ex is_mutation (fst (apply_stack env cfg args revisions))"
    and "no_commit args
         \<or> snd (check_commit_info (get_diffs env (map rev_diffPHID revisions)) revisions) = Inr ()
         \<Longrightarrow> snd (apply_stack env cfg args revisions) =
               Inl (Error (''Base commit not found in diff. ''
                      @ ''Use `--apply-to here` to patch current commit.''))"
proof -
  note sb = select_base_absent [of cfg args "get_diffs env (map rev_diffPHID revisions)"
      revisions d env "rev_id (last revisions)", OF assms(2-4)]
  show "\<exists>e. snd (apply_stack env cfg args revisions) = Inl e"
    using assms(1)
    by (simp add: apply_stack_def snd_bind_res log_patching_def pull_diffs_def sb
          split: sum.splits)
  show "\<not> list_ex is_mutation (fst (apply_stack env cfg args revisions))"
    using assms(1)
    by (simp add: apply_stack_def fst_bind_res snd_bind_res log_patching_def pull_diffs_def sb
          split: sum.splits)
  show "snd (apply_stack env cfg args revisions) =
               Inl (Error (''Base commit not found in diff. ''
                      @ ''Use `--apply-to here` to patch current commit.''))"
    if "no_commit args
         \<or> snd (check_commit_info (get_diffs env (map rev_diffPHID revisions)) revisions) = Inr ()"
    using assms(1) that
    by (auto simp: apply_stack_def snd_bind_res log_patching_def pull_diffs_def sb
          split: sum.splits)
qed

text \<open>
  Claim C5. In a run that is not raw, passed the checks and resolved the stack, with
  \<^verbatim>\<open>apply_to\<close> equal to \<^verbatim>\<open>base\<close> and \<open>d\<close> the diff of the first revision: when no
  entry of \<open>d\<close>'s reference list has type \<^verbatim>\<open>base\<close>, \<^verbatim>\<open>get_base_ref\<close> returns
  \<^verbatim>\<open>None\<close> and the run ends with an exception before any call that changes the working
  tree (the \<^verbatim>\<open>Error\<close> of line 159 when the commit-information check did not fail first);
  when the first entry of type \<^verbatim>\<open>base\<close> is \<open>r\<close>, \<^verbatim>\<open>get_base_ref\<close> returns the
  identifier of \<open>r\<close> unchanged, and lines 155 to 164 pass it on when it is not empty.
\<close>

theorem base_mode_selection:
  assumes "\<not> raw args"
    and "snd (preflight env args) = Inr ()"
    and "snd (resolve_stack env cfg args) = Inr (cfg', revisions)"
    and "effective_apply_to cfg' args = ''base''"
    and "diffs = get_diffs env (map rev_diffPHID revisions)"
    and "diffs (rev_diffPHID (hd revisions)) = Some d"
  shows "((\<forall>r\<in>set (get_refs d). ref_type r \<noteq> ''base'') \<longrightarrow>
            get_base_ref d = None
          \<and> (\<exists>e. snd (snd (patch env cfg args)) = Inl e)
          \<and> \<not> list_ex is_mutation (fst (patch env cfg args))
          \<and> (no_commit args \<or> snd (check_commit_info diffs revisions) = Inr () \<longrightarrow>
               snd (snd (patch env cfg args)) =
                 Inl (Error (''Base commit not found in diff. ''
                        @ ''Use `--apply-to here` to patch current commit.''))))
     \<and> (\<forall>pre r post. get_refs d = pre @ r # post \<and> (\<forall>x\<in>set pre. ref_type x \<noteq> ''base'')
            \<and> ref_type r = ''base'' \<longrightarrow>
            get_base_ref d = Some (ref_identifier r)
          \<and> (ref_identifier r \<noteq> [] \<longrightarrow>
               choose_base ''base'' diffs revisions = ret (Some (ref_identifier r))))"
proof (intro conjI impI allI)
  assume absent: "\<forall>r\<in>set (get_refs d). ref_type r \<noteq> ''base''"
  note p = patch_Inr [OF assms(2,3)]
  note a = apply_stack_base_absent [OF assms(1) assms(4) assms(6) [unfolded assms(5)] absent]
  show "get_base_ref d = None"
    using absent by (simp add: get_base_ref_def find_base_None)
  show "\<exists>e. snd (snd (patch env cfg args)) = Inl e"
    using a(1) by (simp add: p)
  show "\<not> list_ex is_mutation (fst (patch env cfg args))"
    using a(2) by (simp add: p mutation_free_preflight mutation_free_resolve_stack)
  show "snd (snd (patch env cfg args)) =
                 Inl (Error (''Base commit not found in diff. ''
                        @ ''Use `--apply-to here` to patch current commit.''))"
    if "no_commit args \<or> snd (check_commit_info diffs revisions) = Inr ()"
    using a(3) that by (simp add: p assms(5))
next
  fix pre r post
  assume h: "get_refs d = pre @ r # post \<and> (\<forall>x\<in>set pre. ref_type x \<noteq> ''base'')
            \<and> ref_type r = ''base''"
  then show g: "get_base_ref d = Some (ref_identifier r)"
    by (simp add: get_base_ref_def find_base_first)
  show "choose_base ''base'' diffs revisions = ret (Some (ref_identifier r))"
    if "ref_identifier r \<noteq> []"
    using that g assms(6) by (simp add: choose_base_def)
qed

section \<open>The claims on the sample stack\<close>

lemma sample_revision_id [simp]: "revision_id sample_args = 2"
  by (simp add: sample_args_def)

text \<open>Claim C3 on the sample stack, with an ancestor walk that raises.\<close>

theorem nonlinear_ancestors_fatal_witness:
  "get_ancestor_phids (sample_env\<lparr>get_ancestor_phids := \<lambda>p. None\<rparr>) (rev_phid rev_b) = None
   \<and> snd (preflight (sample_env\<lparr>get_ancestor_phids := \<lambda>p. None\<rparr>) sample_args) = Inr ()
   \<and> snd (snd (patch (sample_env\<lparr>get_ancestor_phids := \<lambda>p. None\<rparr>) sample_cfg sample_args)) =
       Inl (Error (''Revision D2 has non-linear dependency relationships.'' @ [newline]
              @ ''Unable to patch the stack.''))
   \<and> \<not> list_ex is_diff_fetch
         (fst (patch (sample_env\<lparr>get_ancestor_phids := \<lambda>p. None\<rparr>) sample_cfg sample_args))"
proof -
  let ?E = "sample_env\<lparr>get_ancestor_phids := \<lambda>p. None\<rparr>"
  have h1: "get_revisions_ids ?E [revision_id sample_args] = rev_b # []"
    by (simp add: sample_env_def)
  have h2: "\<not> no_parents sample_args" and h3: "\<not> no_dependencies sample_args"
    by (simp_all add: sample_args_def)
  have h4: "get_ancestor_phids ?E (rev_phid rev_b) = None"
    by simp
  have pre: "snd (preflight ?E sample_args) = Inr ()"
    by (simp add: preflight_def sample_env_def sample_args_def)
  from nonlinear_ancestors_fatal [OF h1 h2 h3 h4, of sample_cfg] pre h4 show ?thesis
    by (simp add: dname_2)
qed

text \<open>Claim C4 on the sample stack, with a descendant walk that raises.\<close>

theorem nonlinear_children_dropped_witness:
  "get_successor_phids (sample_env\<lparr>get_successor_phids := \<lambda>p a. None\<rparr>) (rev_phid rev_b)
       (include_abandoned sample_args) = None
   \<and> snd (resolve_stack (sample_env\<lparr>get_successor_phids := \<lambda>p a. None\<rparr>) sample_cfg sample_args)
       = Inr (sample_cfg, [rev_a, rev_b])
   \<and> warnings (fst (resolve_stack (sample_env\<lparr>get_successor_phids := \<lambda>p a. None\<rparr>)
         sample_cfg sample_args))
       = [''Revision D2 has non-linear dependency relationships.'' @ [newline]
             @ ''Unable to apply child revisions.'']"
proof -
  let ?E = "sample_env\<lparr>get_successor_phids := \<lambda>p a. None\<rparr>"
  have h1: "snd (preflight ?E sample_args) = Inr ()"
    by (simp add: preflight_def sample_env_def sample_args_def)
  have h2: "get_revisions_ids ?E [revision_id sample_args] = [rev_b]"
    by (simp add: sample_env_def)
  have h3: "snd (fetch_parents ?E sample_args rev_b) = Inr [''ra'']"
    by (simp add: fetch_parents_def sample_env_def sample_args_def rev_b_def)
  have h4: "\<not> no_children sample_args" and h5: "\<not> no_dependencies sample_args"
    by (simp_all add: sample_args_def)
  have h6: "get_successor_phids ?E (rev_phid rev_b) (include_abandoned sample_args) = None"
    by simp
  have g: "get_revisions_phids sample_env [''ra''] = [rev_a]"
    by (simp add: sample_env_def sample_revision_def)
  from nonlinear_children_dropped [OF h1 h2 h3 h4 h5 h6, of sample_cfg] h6 show ?thesis
    by (simp add: dname_2 g)
qed

text \<open>Claim C1 on the sample stack: parent 1, target 2, child 3.\<close>

theorem linear_stack_order_witness:
  "(\<exists>cfg'. snd (resolve_stack sample_env sample_cfg sample_args)
            = Inr (cfg', [rev_a, rev_b, rev_c]))
   \<and> map rev_phid [rev_a, rev_b, rev_c] = rev [''ra''] @ [rev_phid rev_b] @ [''rc'']
   \<and> [rev_a, rev_b, rev_c] ! length [''ra''] = rev_b"
proof -
  have h0: "snd (preflight sample_env sample_args) = Inr ()"
    by (simp add: preflight_def sample_env_def sample_args_def)
  have h1: "get_revisions_ids sample_env [revision_id sample_args] = [rev_b]"
    by (simp add: sample_env_def)
  have h2: "if no_parents sample_args \<or> no_dependencies sample_args then [''ra''] = []
         else get_ancestor_phids sample_env (rev_phid rev_b) = Some [''ra'']"
    by (simp add: sample_env_def sample_args_def rev_b_def)
  have h3: "if no_children sample_args \<or> no_dependencies sample_args then [''rc''] = []
         else get_successor_phids sample_env (rev_phid rev_b) (include_abandoned sample_args)
              = Some [''rc'']"
    by (simp add: sample_env_def sample_args_def rev_b_def)
  have h4: "yes sample_args \<or> always_full_stack sample_cfg
         \<or> prompt sample_env (children_question sample_args [''rc'']) [''Yes'', ''No'', ''Always'']
            \<noteq> ''No''"
    by (simp add: sample_env_def)
  have ga: "get_revisions_phids sample_env [''ra''] = [rev_a]"
    and gc: "get_revisions_phids sample_env [''rc''] = [rev_c]"
    by (simp_all add: sample_env_def sample_revision_def)
  have h5: "map rev_phid (get_revisions_phids sample_env [''ra'']) = [''ra'']"
    and h6: "map rev_phid (get_revisions_phids sample_env [''rc'']) = [''rc'']"
    by (simp_all add: ga gc rev_a_def rev_c_def)
  from linear_stack_order [OF h0 h1 h2 h3 h4 h5 h6] show ?thesis
    by (auto simp: ga gc)
qed

lemma sample_parents: "snd (fetch_parents sample_env sample_args rev_b) = Inr [''ra'']"
  by (simp add: fetch_parents_def sample_env_def sample_args_def rev_b_def)

lemma sample_children: "snd (fetch_children sample_env sample_args rev_b) = Inr [''rc'']"
  by (simp add: fetch_children_def sample_env_def sample_args_def rev_b_def)

lemma sample_confirm:
  "snd (confirm_children sample_env sample_cfg sample_args [''rc'']) = Inr (sample_cfg, [''rc''])"
  by (simp add: confirm_children_def Let_def sample_env_def)

lemma sample_ids: "get_revisions_ids sample_env [revision_id sample_args] = [rev_b]"
  by (simp add: sample_env_def)

lemma sample_phids:
  "get_revisions_phids sample_env [''ra''] = [rev_a]"
  "get_revisions_phids sample_env [''rc''] = [rev_c]"
  by (simp_all add: sample_env_def sample_revision_def)

lemma sample_resolve_stack:
  "snd (resolve_stack sample_env sample_cfg sample_args) = Inr (sample_cfg, [rev_a, rev_b, rev_c])"
  using resolve_stack_steps(1) [OF sample_ids sample_parents sample_children sample_confirm]
  by (simp add: sample_phids)

lemma sample_resolve_root:
  "snd (resolve_stack sample_env sample_cfg (sample_args\<lparr>no_dependencies := True\<rparr>))
     = Inr (sample_cfg, [rev_b])"
proof -
  let ?root = "sample_args\<lparr>no_dependencies := True\<rparr>"
  have i: "get_revisions_ids sample_env [revision_id ?root] = [rev_b]"
    by (simp add: sample_env_def sample_args_def)
  have p: "snd (fetch_parents sample_env ?root rev_b) = Inr []"
    by (simp add: fetch_parents_def)
  have c: "snd (fetch_children sample_env ?root rev_b) = Inr []"
    by (simp add: fetch_children_def)
  have k: "snd (confirm_children sample_env sample_cfg ?root []) = Inr (sample_cfg, [])"
    by (simp add: confirm_children_none)
  from resolve_stack_steps(1) [OF i p c k] show ?thesis
    by simp
qed

lemma sample_preflight_ok:
  "snd (preflight sample_env sample_args) = Inr ()"
  "snd (preflight sample_env (sample_args\<lparr>no_dependencies := True\<rparr>)) = Inr ()"
  by (simp_all add: preflight_def sample_env_def sample_args_def)

lemma sample_apply_to:
  "effective_apply_to sample_cfg sample_args = ''base''"
  "effective_apply_to sample_cfg (sample_args\<lparr>no_dependencies := True\<rparr>) = ''base''"
  by (simp_all add: effective_apply_to_def sample_cfg_def sample_args_def)

lemma sample_diffs_all:
  "sample_diffs (map rev_diffPHID [rev_a, rev_b, rev_c]) ''da'' = Some diff_a"
  "sample_diffs (map rev_diffPHID [rev_a, rev_b, rev_c]) ''db'' = Some diff_b"
  "sample_diffs (map rev_diffPHID [rev_a, rev_b, rev_c]) ''dc'' = Some diff_c"
  by (simp_all add: sample_diffs_def rev_a_def rev_b_def rev_c_def)

lemma sample_diffs_root:
  "sample_diffs (map rev_diffPHID [rev_b]) ''db'' = Some diff_b"
  by (simp add: sample_diffs_def rev_b_def)

lemma sample_get_diffs [simp]: "get_diffs sample_env = sample_diffs"
  by (simp add: sample_env_def)

lemma sample_diffPHID [simp]:
  "rev_diffPHID rev_a = ''da''" "rev_diffPHID rev_b = ''db''" "rev_diffPHID rev_c = ''dc''"
  by (simp_all add: rev_a_def rev_b_def rev_c_def)

text \<open>
  Claim C5 on the sample stack: the target alone, whose diff has no reference list, and
  the whole stack, whose first diff records the base \<^verbatim>\<open>c0ffee\<close> after a branch entry.
\<close>

theorem base_mode_selection_witness:
  "get_refs diff_b = []
   \<and> get_base_ref diff_b = None
   \<and> snd (snd (patch sample_env sample_cfg (sample_args\<lparr>no_dependencies := True\<rparr>))) =
        Inl (Error (''Base commit not found in diff. ''
               @ ''Use `--apply-to here` to patch current commit.''))
   \<and> get_refs diff_a = [\<lparr>ref_type = ''branch'', ref_identifier = ''default''\<rparr>]
        @ \<lparr>ref_type = ''base'', ref_identifier = ''c0ffee''\<rparr> # []
   \<and> get_base_ref diff_a = Some ''c0ffee''
   \<and> choose_base ''base'' (get_diffs sample_env (map rev_diffPHID [rev_a, rev_b, rev_c]))
        [rev_a, rev_b, rev_c] = ret (Some ''c0ffee'')"
proof -
  let ?root = "sample_args\<lparr>no_dependencies := True\<rparr>"
  let ?branch = "\<lparr>ref_type = ''branch'', ref_identifier = ''default''\<rparr>"
  let ?base = "\<lparr>ref_type = ''base'', ref_identifier = ''c0ffee''\<rparr>"
  have a1: "\<not> raw ?root" and b1: "\<not> raw sample_args"
    by (simp_all add: sample_args_def)
  have a6: "get_diffs sample_env (map rev_diffPHID [rev_b]) (rev_diffPHID (hd [rev_b])) = Some diff_b"
    by (simp add: sample_diffs_root del: list.map)
  have b6: "get_diffs sample_env (map rev_diffPHID [rev_a, rev_b, rev_c])
               (rev_diffPHID (hd [rev_a, rev_b, rev_c])) = Some diff_a"
    by (simp add: sample_diffs_all del: list.map)
  have absent: "\<forall>r\<in>set (get_refs diff_b). ref_type r \<noteq> ''base''"
    by (simp add: get_refs_def diff_b_def)
  have "diff_commits diff_b \<noteq> []"
    by (simp add: diff_b_def)
  then have check: "snd (check_commit_info (get_diffs sample_env (map rev_diffPHID [rev_b])) [rev_b])
      = Inr ()"
    using sample_diffs_root by (simp del: list.map)
  have present: "get_refs diff_a = [?branch] @ ?base # []
     \<and> (\<forall>x\<in>set [?branch]. ref_type x \<noteq> ''base'') \<and> ref_type ?base = ''base''"
    by (simp add: get_refs_def diff_a_def)
  note one = base_mode_selection [OF a1 sample_preflight_ok(2) sample_resolve_root
      sample_apply_to(2) refl a6]
  note two = base_mode_selection [OF b1 sample_preflight_ok(1) sample_resolve_stack
      sample_apply_to(1) refl b6]
  from one absent check have r1: "get_base_ref diff_b = None
     \<and> snd (snd (patch sample_env sample_cfg ?root)) =
        Inl (Error (''Base commit not found in diff. ''
               @ ''Use `--apply-to here` to patch current commit.''))"
    by blast
  from two have "get_refs diff_a = [?branch] @ ?base # []
            \<and> (\<forall>x\<in>set [?branch]. ref_type x \<noteq> ''base'') \<and> ref_type ?base = ''base'' \<longrightarrow>
            get_base_ref diff_a = Some (ref_identifier ?base)
          \<and> (ref_identifier ?base \<noteq> [] \<longrightarrow>
               choose_base ''base'' (get_diffs sample_env (map rev_diffPHID [rev_a, rev_b, rev_c]))
                 [rev_a, rev_b, rev_c] = ret (Some (ref_identifier ?base)))"
    by blast
  with present have r2: "get_base_ref diff_a = Some ''c0ffee''
     \<and> choose_base ''base'' (get_diffs sample_env (map rev_diffPHID [rev_a, rev_b, rev_c]))
        [rev_a, rev_b, rev_c] = ret (Some ''c0ffee'')"
    by simp
  have "get_refs diff_b = []"
    by (simp add: get_refs_def diff_b_def)
  with r1 present r2 show ?thesis
    by blast
qed

section \<open>The dependency links of the commit bodies\<close>

lemma links_append [simp]: "links (a @ b) = links a @ links b"
  by (simp add: links_def)

lemma links_Nil [simp]: "links [] = []"
  by (simp add: links_def)

lemma links_Cons [simp]: "links (e # t) = link_of e @ links t"
  by (simp add: links_def)

lemma links_preflight [simp]: "links (fst (preflight env args)) = []"
  by (simp add: preflight_def split: option.splits)

lemma links_fetch_parents [simp]: "links (fst (fetch_parents env args r)) = []"
  by (simp add: fetch_parents_def split: option.splits)

lemma links_fetch_children [simp]: "links (fst (fetch_children env args r)) = []"
  by (simp add: fetch_children_def split: option.splits)

lemma links_confirm_children [simp]: "links (fst (confirm_children env cfg args cs)) = []"
  by (simp add: confirm_children_def Let_def)

lemma links_fetch_related [simp]: "links (fst (fetch_related env revs ps cs)) = []"
  by (simp add: fetch_related_def fst_bind_res)

lemma links_resolve_stack [simp]: "links (fst (resolve_stack env cfg args)) = []"
  by (simp add: resolve_stack_def fst_bind_res split: list.splits sum.splits prod.splits)

lemma links_select_base [simp]: "links (fst (select_base env cfg args diffs revs t)) = []"
  by (simp add: select_base_def choose_base_def validate_base_def fst_bind_res
        split: option.splits sum.splits)

lemma links_apply_one [simp]:
  "links (fst (apply_one env args diffs l parent r)) = [(rev_id r, parent)]"
  by (simp add: apply_one_def fst_bind_res Let_def split: option.splits list.splits sum.splits)

lemma links_apply_revisions:
  "\<exists>k\<le>length revs.
     links (fst (apply_revisions env args diffs l parent revs))
       = take k (zip (map rev_id revs) (parent # map (\<lambda>x. Some (rev_id x)) revs))
     \<and> (snd (apply_revisions env args diffs l parent revs) = Inr () \<longrightarrow> k = length revs)"
proof (induction revs arbitrary: parent)
  case Nil
  then show ?case by simp
next
  case (Cons r revs)
  show ?case
  proof (cases "snd (apply_one env args diffs l parent r)")
    case (Inl e)
    then have "links (fst (apply_revisions env args diffs l parent (r # revs)))
        = take 1 (zip (map rev_id (r # revs)) (parent # map (\<lambda>x. Some (rev_id x)) (r # revs)))"
      and "snd (apply_revisions env args diffs l parent (r # revs)) \<noteq> Inr ()"
      by simp_all
    then show ?thesis
      by (intro exI [of _ 1]) simp
  next
    case (Inr u)
    from Cons.IH [of "Some (rev_id r)"] obtain k where k: "k \<le> length revs"
      "links (fst (apply_revisions env args diffs l (Some (rev_id r)) revs))
         = take k (zip (map rev_id revs) (Some (rev_id r) # map (\<lambda>x. Some (rev_id x)) revs))"
      "snd (apply_revisions env args diffs l (Some (rev_id r)) revs) = Inr () \<longrightarrow> k = length revs"
      by blast
    from Inr k show ?thesis
      by (intro exI [of _ "Suc k"]) simp
  qed
qed

lemma links_apply_stack:
  "links (fst (apply_stack env cfg args revs))
     = links (fst (apply_revisions env args
                (get_diffs env (map rev_diffPHID revs)) (rev_id (last revs)) None revs))
   \<or> links (fst (apply_stack env cfg args revs)) = []"
  by (simp add: apply_stack_def fst_bind_res snd_bind_res log_patching_def pull_diffs_def
        split: sum.splits)

lemma apply_stack_done:
  "snd (apply_stack env cfg args revs) = Inr () \<Longrightarrow>
   links (fst (apply_stack env cfg args revs))
     = links (fst (apply_revisions env args
                (get_diffs env (map rev_diffPHID revs)) (rev_id (last revs)) None revs))
   \<and> snd (apply_revisions env args
                (get_diffs env (map rev_diffPHID revs)) (rev_id (last revs)) None revs) = Inr ()"
  by (simp add: apply_stack_def fst_bind_res snd_bind_res log_patching_def pull_diffs_def
        split: sum.splits if_splits)

lemma stack_links_nth:
  assumes "i < length revs"
  shows "zip (map rev_id revs) (None # map (\<lambda>x. Some (rev_id x)) revs) ! i
     = (rev_id (revs ! i), if i = 0 then None else Some (rev_id (revs ! (i - 1))))"
  using assms by (cases i) simp_all

text \<open>
  Claim C9. In a run that passed the checks and resolved the stack \<open>revs\<close>, the calls of
  \<^verbatim>\<open>prepare_body\<close> follow the stack: the call number \<open>i\<close> is for revision \<open>i\<close> of the
  stack and its \<^verbatim>\<open>depends_on\<close> is \<^verbatim>\<open>None\<close> for the first revision and the id of
  revision \<open>i - 1\<close> otherwise. There is at most one call per revision, and exactly one when
  the run succeeds.
\<close>

theorem depends_on_previous:
  assumes "snd (preflight env args) = Inr ()"
    and "snd (resolve_stack env cfg args) = Inr (cfg', revs)"
  shows "length (links (fst (patch env cfg args))) \<le> length revs
     \<and> (\<forall>i<length (links (fst (patch env cfg args))).
          links (fst (patch env cfg args)) ! i
            = (rev_id (revs ! i), if i = 0 then None else Some (rev_id (revs ! (i - 1)))))
     \<and> (snd (snd (patch env cfg args)) = Inr () \<longrightarrow>
          length (links (fst (patch env cfg args))) = length revs)"
proof -
  let ?loop = "apply_revisions env args (get_diffs env (map rev_diffPHID revs))
      (rev_id (last revs)) None revs"
  let ?all = "zip (map rev_id revs) (None # map (\<lambda>x. Some (rev_id x)) revs)"
  note p = patch_Inr [OF assms]
  have l: "links (fst (patch env cfg args)) = links (fst (apply_stack env cfg' args revs))"
    by (simp add: p)
  from links_apply_revisions [of revs env args "get_diffs env (map rev_diffPHID revs)"
      "rev_id (last revs)" None]
  obtain k where k: "k \<le> length revs" "links (fst ?loop) = take k ?all"
    "snd ?loop = Inr () \<longrightarrow> k = length revs"
    by blast
  have "\<exists>n\<le>length revs. links (fst (patch env cfg args)) = take n ?all
      \<and> (snd (snd (patch env cfg args)) = Inr () \<longrightarrow> n = length revs)"
  proof (cases "snd (apply_stack env cfg' args revs) = Inr ()")
    case True
    from apply_stack_done [OF True] k have "links (fst (patch env cfg args)) = take k ?all"
      and "k = length revs"
      by (simp_all add: l)
    with k(1) show ?thesis by blast
  next
    case False
    then have f: "snd (snd (patch env cfg args)) \<noteq> Inr ()"
      by (simp add: p)
    from links_apply_stack [of env cfg' args revs]
    have "links (fst (patch env cfg args)) = take k ?all
        \<or> links (fst (patch env cfg args)) = take 0 ?all"
      unfolding l k(2) by simp
    with k(1) f show ?thesis by (metis le0)
  qed
  then obtain n where n: "n \<le> length revs" "links (fst (patch env cfg args)) = take n ?all"
    "snd (snd (patch env cfg args)) = Inr () \<longrightarrow> n = length revs"
    by blast
  have len: "length (links (fst (patch env cfg args))) = n"
    using n(1) by (simp add: n(2))
  have nth: "links (fst (patch env cfg args)) ! i
      = (rev_id (revs ! i), if i = 0 then None else Some (rev_id (revs ! (i - 1))))"
    if "i < n" for i
  proof -
    from that n(1) have "i < length revs" by simp
    from stack_links_nth [OF this] that show ?thesis
      by (simp add: n(2))
  qed
  from len n(1) n(3) nth show ?thesis
    by simp
qed

lemma sample_rev_fields [simp]:
  "rev_id rev_a = 1" "rev_id rev_b = 2" "rev_id rev_c = 3"
  "rev_title rev_a = ''A''" "rev_title rev_b = ''B''" "rev_title rev_c = ''C''"
  "rev_summary rev_a = ''sa''" "rev_summary rev_b = ''sb''" "rev_summary rev_c = ''sc''"
  by (simp_all add: rev_a_def rev_b_def rev_c_def)

lemma sample_diff_fields [simp]:
  "diff_id diff_a = 11" "diff_id diff_b = 12" "diff_id diff_c = 13"
  "diff_commits diff_a = [ann]" "diff_commits diff_b = [ann]" "diff_commits diff_c = [ann]"
  "diff_dateCreated diff_a = 100" "diff_dateCreated diff_b = 200" "diff_dateCreated diff_c = 300"
  by (simp_all add: diff_a_def diff_b_def diff_c_def)

lemma dname_sample [simp]: "dname 1 = ''D1''" "dname 3 = ''D3''"
  by (simp_all add: dname_def str_int_def str_nat.simps digit_char_def)

lemma sample_check_commit_info:
  "check_commit_info (sample_diffs (map rev_diffPHID [rev_a, rev_b, rev_c])) [rev_a, rev_b, rev_c]
     = ret ()"
  using sample_diffs_all by (simp del: list.map add: ann_def)

lemma sample_select_base:
  "snd (select_base sample_env sample_cfg sample_args
          (sample_diffs (map rev_diffPHID [rev_a, rev_b, rev_c])) [rev_a, rev_b, rev_c] 3) = Inr ()"
proof -
  have "get_base_ref diff_a = Some ''c0ffee''"
    by (simp add: get_base_ref_def get_refs_def diff_a_def)
  then have c: "choose_base ''base'' (sample_diffs (map rev_diffPHID [rev_a, rev_b, rev_c]))
      [rev_a, rev_b, rev_c] = ret (Some ''c0ffee'')"
    using sample_diffs_all(1) by (simp add: choose_base_def del: list.map)
  have v: "snd (validate_base sample_env ''base'' (Some ''c0ffee'')) = Inr (Some ''c0ffee'')"
    by (simp add: validate_base_def sample_env_def)
  show ?thesis
    unfolding select_base_def sample_apply_to(1) c
    using v by (simp add: snd_bind_res)
qed

lemma sample_apply_one:
  "snd (apply_one sample_env sample_args (sample_diffs (map rev_diffPHID [rev_a, rev_b, rev_c]))
          3 p rev_a) = Inr ()"
  "snd (apply_one sample_env sample_args (sample_diffs (map rev_diffPHID [rev_a, rev_b, rev_c]))
          3 p rev_b) = Inr ()"
  "snd (apply_one sample_env sample_args (sample_diffs (map rev_diffPHID [rev_a, rev_b, rev_c]))
          3 p rev_c) = Inr ()"
  using sample_diffs_all
  by (simp_all add: apply_one_def snd_bind_res Let_def sample_args_def sample_env_def
        del: list.map)

lemma sample_apply_revisions:
  "snd (apply_revisions sample_env sample_args
          (sample_diffs (map rev_diffPHID [rev_a, rev_b, rev_c])) 3 None [rev_a, rev_b, rev_c])
     = Inr ()"
  by (simp add: sample_apply_one del: list.map)

lemma sample_apply_stack:
  "snd (apply_stack sample_env sample_cfg sample_args [rev_a, rev_b, rev_c]) = Inr ()"
  using sample_check_commit_info sample_select_base sample_apply_revisions
  by (simp add: apply_stack_def snd_bind_res log_patching_def pull_diffs_def del: list.map)

lemma sample_patch: "snd (snd (patch sample_env sample_cfg sample_args)) = Inr ()"
  using patch_Inr [OF sample_preflight_ok(1) sample_resolve_stack] sample_apply_stack
  by simp

text \<open>Claim C9 on the sample stack, where all three revisions are committed.\<close>

theorem depends_on_previous_witness:
  "snd (preflight sample_env sample_args) = Inr ()
   \<and> snd (resolve_stack sample_env sample_cfg sample_args) = Inr (sample_cfg, [rev_a, rev_b, rev_c])
   \<and> snd (snd (patch sample_env sample_cfg sample_args)) = Inr ()
   \<and> links (fst (patch sample_env sample_cfg sample_args)) = [(1, None), (2, Some 1), (3, Some 2)]"
proof -
  let ?l = "links (fst (patch sample_env sample_cfg sample_args))"
  from depends_on_previous [OF sample_preflight_ok(1) sample_resolve_stack] sample_patch
  have len: "length ?l = 3"
    and nth: "\<forall>i<length ?l. ?l ! i
      = (rev_id ([rev_a, rev_b, rev_c] ! i),
         if i = 0 then None else Some (rev_id ([rev_a, rev_b, rev_c] ! (i - 1))))"
    by simp_all
  from nth len have "?l ! 0 = (1, None)" "?l ! Suc 0 = (2, Some 1)"
    "?l ! Suc (Suc 0) = (3, Some 2)"
    by simp_all
  with len have "?l = [(1, None), (2, Some 1), (3, Some 2)]"
    by (intro nth_equalityI) (auto simp: less_Suc_eq numeral_3_eq_3)
  with sample_preflight_ok(1) sample_resolve_stack sample_patch show ?thesis
    by blast
qed

section \<open>Diffs without commit information\<close>

lemma check_commit_info_fails:
  assumes "r \<in> set revs" "diffs (rev_diffPHID r) = Some d" "diff_commits d = []"
  shows "\<exists>e. snd (check_commit_info diffs revs) = Inl e"
  using assms by (induction revs) (auto split: option.splits)

lemma check_commit_info_first:
  assumes "\<forall>x\<in>set pre. \<exists>dx. diffs (rev_diffPHID x) = Some dx \<and> diff_commits dx \<noteq> []"
    and "diffs (rev_diffPHID r) = Some d" "diff_commits d = []"
  shows "check_commit_info diffs (pre @ r # post) =
     raise (Error (''A diff without commit information detected in revision ''
              @ dname (rev_id r) @ ''.'' @ [newline]
              @ ''Use `--no-commit` to patch the working tree.''))"
  using assms by (induction pre) auto

lemma apply_stack_check_fails:
  assumes "\<not> no_commit args" "\<not> raw args"
    and "snd (check_commit_info (get_diffs env (map rev_diffPHID revs)) revs) = Inl e"
  shows "snd (apply_stack env cfg args revs) = Inl e"
    and "\<not> list_ex is_mutation (fst (apply_stack env cfg args revs))"
  using assms
  by (simp_all add: apply_stack_def snd_bind_res fst_bind_res log_patching_def pull_diffs_def)

lemma get_base_ref_without_commits [simp]: "get_base_ref (without_commits d) = get_base_ref d"
  by (simp add: get_base_ref_def get_refs_def without_commits_def)

lemma diff_id_without_commits [simp]: "diff_id (without_commits d) = diff_id d"
  by (simp add: without_commits_def)

lemma choose_base_without_commits:
  "choose_base a (\<lambda>k. map_option without_commits (diffs k)) revs = choose_base a diffs revs"
  by (simp add: choose_base_def split: option.splits)

lemma no_commit_info_fields:
  "conduit_check (no_commit_info env) = conduit_check env"
  "check_vcs (no_commit_info env) = check_vcs env"
  "is_worktree_clean (no_commit_info env) = is_worktree_clean env"
  "is_mercurial (no_commit_info env) = is_mercurial env"
  "phab_url (no_commit_info env) = phab_url env"
  "repo_path (no_commit_info env) = repo_path env"
  "get_revisions_ids (no_commit_info env) = get_revisions_ids env"
  "get_revisions_phids (no_commit_info env) = get_revisions_phids env"
  "get_ancestor_phids (no_commit_info env) = get_ancestor_phids env"
  "get_successor_phids (no_commit_info env) = get_successor_phids env"
  "getrawdiff (no_commit_info env) = getrawdiff env"
  "check_node (no_commit_info env) = check_node env"
  "short_node (no_commit_info env) = short_node env"
  "prepare_body (no_commit_info env) = prepare_body env"
  "prompt (no_commit_info env) = prompt env"
  "repo_apply_patch (no_commit_info env) = repo_apply_patch env"
  by (simp_all add: no_commit_info_def)

lemma validate_base_no_commit_info:
  "validate_base (no_commit_info env) a b = validate_base env a b"
  unfolding validate_base_def no_commit_info_fields ..

lemma select_base_no_commit_info:
  "select_base (no_commit_info env) cfg args (\<lambda>k. map_option without_commits (diffs k)) revs t
     = select_base env cfg args diffs revs t"
  unfolding select_base_def choose_base_without_commits validate_base_no_commit_info ..

lemma apply_one_no_commit_info:
  assumes "no_commit args \<or> raw args"
  shows "apply_one (no_commit_info env) args (\<lambda>k. map_option without_commits (diffs k)) l p r
     = apply_one env args diffs l p r"
proof (cases "diffs (rev_diffPHID r)")
  case None
  then show ?thesis
    unfolding apply_one_def no_commit_info_fields by simp
next
  case (Some d)
  from assms have c: "(if no_commit args then x else if raw args then y else z)
      = (if no_commit args then x else y)" for x y z :: "unit res"
    by auto
  from Some show ?thesis
    unfolding apply_one_def no_commit_info_fields c by simp
qed

lemma apply_revisions_no_commit_info:
  assumes "no_commit args \<or> raw args"
  shows "apply_revisions (no_commit_info env) args (\<lambda>k. map_option without_commits (diffs k)) l p revs
     = apply_revisions env args diffs l p revs"
proof (induction revs arbitrary: p)
  case Nil
  show ?case by simp
next
  case (Cons r revs)
  show ?case
    unfolding apply_revisions.simps apply_one_no_commit_info [OF assms] Cons.IH ..
qed

lemma pull_diffs_no_commit_info:
  "pull_diffs (no_commit_info env) revs
     = (fst (pull_diffs env revs),
        Inr (\<lambda>k. map_option without_commits (get_diffs env (map rev_diffPHID revs) k)))"
  by (simp add: pull_diffs_def no_commit_info_def emits_def ret_def)

lemma pull_diffs_eq:
  "pull_diffs env revs = (fst (pull_diffs env revs), Inr (get_diffs env (map rev_diffPHID revs)))"
  by (simp add: pull_diffs_def emits_def ret_def)

lemma apply_stack_no_commit_info:
  assumes "no_commit args \<or> raw args"
  shows "apply_stack (no_commit_info env) cfg args revs = apply_stack env cfg args revs"
proof -
  let ?d = "get_diffs env (map rev_diffPHID revs)"
  have c: "(if \<not> no_commit args \<and> \<not> raw args then x else y) = y" for x y :: "unit res"
    using assms by auto
  have p': "bind_res (pull_diffs (no_commit_info env) revs) f
      = emits (fst (pull_diffs env revs)) (f (\<lambda>k. map_option without_commits (?d k)))"
    for f :: "(phid \<rightharpoonup> diff) \<Rightarrow> unit res"
    by (subst pull_diffs_no_commit_info) (simp add: bind_res_def)
  have p: "bind_res (pull_diffs env revs) f = emits (fst (pull_diffs env revs)) (f ?d)"
    for f :: "(phid \<rightharpoonup> diff) \<Rightarrow> unit res"
    by (subst pull_diffs_eq) (simp add: bind_res_def)
  show ?thesis
    unfolding apply_stack_def c p p' select_base_no_commit_info
      apply_revisions_no_commit_info [OF assms] ..
qed

lemma preflight_no_commit_info: "preflight (no_commit_info env) args = preflight env args"
  unfolding preflight_def no_commit_info_fields ..

lemma resolve_stack_no_commit_info:
  "resolve_stack (no_commit_info env) cfg args = resolve_stack env cfg args"
  unfolding resolve_stack_def fetch_parents_def fetch_children_def confirm_children_def
    fetch_related_def no_commit_info_fields ..

lemma patch_no_commit_info:
  assumes "no_commit args \<or> raw args"
  shows "patch (no_commit_info env) cfg args = patch env cfg args"
  unfolding patch_def preflight_no_commit_info resolve_stack_no_commit_info
    apply_stack_no_commit_info [OF assms] ..

text \<open>
  Claim C7. With \<^verbatim>\<open>--no-commit\<close> or \<^verbatim>\<open>--raw\<close> the whole run, its events and its
  outcome, is the same when the service returns every diff without commit information:
  the missing information causes no error. With neither flag, in a run that passed the
  checks and resolved the stack, a revision of the stack whose diff has no commit
  information ends the run with an exception before any call that changes the working
  tree; when the revisions before it all have diffs with commit information, the
  exception is the \<^verbatim>\<open>Error\<close> of line 143 naming that revision.
\<close>

theorem commit_info_required:
  "(no_commit args \<or> raw args \<longrightarrow> patch (no_commit_info env) cfg args = patch env cfg args)
   \<and> (\<not> no_commit args \<and> \<not> raw args
        \<and> snd (preflight env args) = Inr ()
        \<and> snd (resolve_stack env cfg args) = Inr (cfg', revisions)
        \<and> r \<in> set revisions
        \<and> get_diffs env (map rev_diffPHID revisions) (rev_diffPHID r) = Some d
        \<and> diff_commits d = [] \<longrightarrow>
          (\<exists>e. snd (snd (patch env cfg args)) = Inl e)
        \<and> \<not> list_ex is_mutation (fst (patch env cfg args))
        \<and> (\<forall>pre post. revisions = pre @ r # post
              \<and> (\<forall>x\<in>set pre. \<exists>dx. get_diffs env (map rev_diffPHID revisions) (rev_diffPHID x)
                      = Some dx \<and> diff_commits dx \<noteq> []) \<longrightarrow>
              snd (snd (patch env cfg args)) =
                Inl (Error (''A diff without commit information detected in revision ''
                       @ dname (rev_id r) @ ''.'' @ [newline]
                       @ ''Use `--no-commit` to patch the working tree.''))))"
proof (intro conjI impI allI)
  assume "no_commit args \<or> raw args"
  then show "patch (no_commit_info env) cfg args = patch env cfg args"
    by (rule patch_no_commit_info)
next
  assume h: "\<not> no_commit args \<and> \<not> raw args
        \<and> snd (preflight env args) = Inr ()
        \<and> snd (resolve_stack env cfg args) = Inr (cfg', revisions)
        \<and> r \<in> set revisions
        \<and> get_diffs env (map rev_diffPHID revisions) (rev_diffPHID r) = Some d
        \<and> diff_commits d = []"
  let ?diffs = "get_diffs env (map rev_diffPHID revisions)"
  from h have p: "patch env cfg args =
     (fst (preflight env args) @ fst (resolve_stack env cfg args)
        @ fst (apply_stack env cfg' args revisions),
      cfg', snd (apply_stack env cfg' args revisions))"
    by (intro patch_Inr) blast+
  from h obtain e where e: "snd (check_commit_info ?diffs revisions) = Inl e"
    using check_commit_info_fails [of r revisions ?diffs d] by blast
  from h have m: "\<not> no_commit args" "\<not> raw args" by blast+
  note a = apply_stack_check_fails [OF m e, of cfg']
  show "\<exists>e. snd (snd (patch env cfg args)) = Inl e"
    by (simp add: p a(1))
  show "\<not> list_ex is_mutation (fst (patch env cfg args))"
    by (simp add: p a(2) mutation_free_preflight mutation_free_resolve_stack)
  fix pre post
  assume f: "revisions = pre @ r # post
              \<and> (\<forall>x\<in>set pre. \<exists>dx. get_diffs env (map rev_diffPHID revisions) (rev_diffPHID x)
                      = Some dx \<and> diff_commits dx \<noteq> [])"
  from f h have "check_commit_info ?diffs (pre @ r # post) =
     raise (Error (''A diff without commit information detected in revision ''
              @ dname (rev_id r) @ ''.'' @ [newline]
              @ ''Use `--no-commit` to patch the working tree.''))"
    by (intro check_commit_info_first) blast+
  with f have "snd (check_commit_info ?diffs revisions) =
     Inl (Error (''A diff without commit information detected in revision ''
              @ dname (rev_id r) @ ''.'' @ [newline]
              @ ''Use `--no-commit` to patch the working tree.''))"
    by simp
  from apply_stack_check_fails(1) [OF m this, of cfg']
  show "snd (snd (patch env cfg args)) =
                Inl (Error (''A diff without commit information detected in revision ''
                       @ dname (rev_id r) @ ''.'' @ [newline]
                       @ ''Use `--no-commit` to patch the working tree.''))"
    by (simp add: p)
qed

lemma sample_no_commit_run:
  "snd (snd (patch sample_env sample_cfg (sample_args\<lparr>no_commit := True\<rparr>))) = Inr ()"
  by code_simp

lemma sample_raw_run:
  "snd (snd (patch sample_env sample_cfg (sample_args\<lparr>raw := True\<rparr>))) = Inr ()"
  by code_simp

lemma sample_stripped_preflight:
  "snd (preflight (no_commit_info sample_env) sample_args) = Inr ()"
  by code_simp

lemma sample_stripped_resolve:
  "snd (resolve_stack (no_commit_info sample_env) sample_cfg sample_args)
     = Inr (sample_cfg, [rev_a, rev_b, rev_c])"
  by code_simp

lemma sample_stripped_diff:
  "get_diffs (no_commit_info sample_env) (map rev_diffPHID [rev_a, rev_b, rev_c]) (rev_diffPHID rev_a)
     = Some (without_commits diff_a)"
  by code_simp

text \<open>
  Claim C7 on the sample stack, served without commit information: the runs with
  \<^verbatim>\<open>--no-commit\<close> and with \<^verbatim>\<open>--raw\<close> succeed, the default run stops at revision 1.
\<close>

theorem commit_info_required_witness:
  "snd (snd (patch (no_commit_info sample_env) sample_cfg (sample_args\<lparr>no_commit := True\<rparr>)))
     = Inr ()
   \<and> snd (snd (patch (no_commit_info sample_env) sample_cfg (sample_args\<lparr>raw := True\<rparr>)))
     = Inr ()
   \<and> diff_commits (without_commits diff_a) = []
   \<and> snd (snd (patch (no_commit_info sample_env) sample_cfg sample_args)) =
        Inl (Error (''A diff without commit information detected in revision D1.'' @ [newline]
               @ ''Use `--no-commit` to patch the working tree.''))
   \<and> \<not> list_ex is_mutation (fst (patch (no_commit_info sample_env) sample_cfg sample_args))"
proof -
  let ?E = "no_commit_info sample_env"
  let ?nc = "sample_args\<lparr>no_commit := True\<rparr>"
  let ?raw = "sample_args\<lparr>raw := True\<rparr>"
  have m: "no_commit ?nc \<or> raw ?nc" "no_commit ?raw \<or> raw ?raw"
    "\<not> no_commit sample_args \<and> \<not> raw sample_args"
    by (simp_all add: sample_args_def)
  from commit_info_required [of ?nc sample_env sample_cfg] m(1) sample_no_commit_run
  have one: "snd (snd (patch ?E sample_cfg ?nc)) = Inr ()"
    by simp
  from commit_info_required [of ?raw sample_env sample_cfg] m(2) sample_raw_run
  have two: "snd (snd (patch ?E sample_cfg ?raw)) = Inr ()"
    by simp
  have e: "diff_commits (without_commits diff_a) = []"
    by (simp add: without_commits_def)
  have r: "rev_a \<in> set [rev_a, rev_b, rev_c]"
    by simp
  have f: "[rev_a, rev_b, rev_c] = [] @ rev_a # [rev_b, rev_c]
      \<and> (\<forall>x\<in>set []. \<exists>dx. get_diffs ?E (map rev_diffPHID [rev_a, rev_b, rev_c]) (rev_diffPHID x)
                      = Some dx \<and> diff_commits dx \<noteq> [])"
    by simp
  from commit_info_required [of sample_args ?E sample_cfg sample_cfg "[rev_a, rev_b, rev_c]"
      rev_a "without_commits diff_a"]
    m(3) sample_stripped_preflight sample_stripped_resolve r sample_stripped_diff e
  have three: "\<not> list_ex is_mutation (fst (patch ?E sample_cfg sample_args))
     \<and> (\<forall>pre post. [rev_a, rev_b, rev_c] = pre @ rev_a # post
              \<and> (\<forall>x\<in>set pre. \<exists>dx. get_diffs ?E (map rev_diffPHID [rev_a, rev_b, rev_c])
                      (rev_diffPHID x) = Some dx \<and> diff_commits dx \<noteq> []) \<longrightarrow>
              snd (snd (patch ?E sample_cfg sample_args)) =
                Inl (Error (''A diff without commit information detected in revision ''
                       @ dname (rev_id rev_a) @ ''.'' @ [newline]
                       @ ''Use `--no-commit` to patch the working tree.'')))"
    by blast
  with f have "snd (snd (patch ?E sample_cfg sample_args)) =
                Inl (Error (''A diff without commit information detected in revision ''
                       @ dname (rev_id rev_a) @ ''.'' @ [newline]
                       @ ''Use `--no-commit` to patch the working tree.''))"
    by blast
  with one two e three show ?thesis
    by simp
qed

section \<open>A patch that fails to apply\<close>

lemma commits_append [simp]: "commits (a @ b) = commits a @ commits b"
  by (simp add: commits_def)

lemma commits_Nil [simp]: "commits [] = []"
  by (simp add: commits_def)

lemma commits_Cons [simp]: "commits (e # t) = commit_of e @ commits t"
  by (simp add: commits_def)

lemma attempts_append [simp]: "attempts (a @ b) = attempts a @ attempts b"
  by (simp add: attempts_def)

lemma attempts_Nil [simp]: "attempts [] = []"
  by (simp add: attempts_def)

lemma attempts_Cons [simp]: "attempts (e # t) = attempt_of e @ attempts t"
  by (simp add: attempts_def)

lemma attempts_mutation_free: "\<not> list_ex is_mutation t \<Longrightarrow> attempts t = []"
  by (induction t) (auto elim: is_mutation.elims)

lemma commits_mutation_free: "\<not> list_ex is_mutation t \<Longrightarrow> commits t = []"
  by (induction t) (auto elim: is_mutation.elims)

lemma attempts_select_base [simp]: "attempts (fst (select_base env cfg args diffs revs t)) = []"
  by (simp add: select_base_def choose_base_def validate_base_def fst_bind_res
        split: option.splits sum.splits)

lemma commits_select_base [simp]: "commits (fst (select_base env cfg args diffs revs t)) = []"
  by (simp add: select_base_def choose_base_def validate_base_def fst_bind_res
        split: option.splits sum.splits)

lemma apply_one_commit:
  assumes "\<not> raw args" "\<not> no_commit args"
    and "diffs (rev_diffPHID r) = Some d" "diff_commits d = c # cs"
    and "body = prepare_body env (rev_title r) (rev_summary r) (rev_id r) (phab_url env) p"
    and "ok = repo_apply_patch env (getrawdiff env (diff_id d)) body
            (author_name c @ '' <'' @ author_email c @ ''>'') (diff_dateCreated d)"
  shows "apply_one env args diffs l p r =
     ([PrepareBody (rev_title r) (rev_summary r) (rev_id r) (phab_url env) p,
       Wait (''Downloading '' @ dname (rev_id r) @ ''..''), GetRawDiff (diff_id d),
       Wait (''Applying '' @ dname (rev_id r) @ ''..''),
       RepoApplyPatch (getrawdiff env (diff_id d)) body
         (author_name c @ '' <'' @ author_email c @ ''>'') (diff_dateCreated d) ok]
      @ (if ok \<and> rev_id r \<noteq> l then [LogInfo (dname (rev_id r) @ '' applied'')] else []),
      if ok then Inr () else Inl (Error ''Patch failed to apply''))"
  using assms
  by (simp add: apply_one_def Let_def bind_res_def emits_def ret_def raise_def)

lemma apply_stack_commit_mode:
  assumes "\<not> raw args" "\<not> no_commit args"
    and "snd (check_commit_info (get_diffs env (map rev_diffPHID revs)) revs) = Inr ()"
    and "snd (select_base env cfg args (get_diffs env (map rev_diffPHID revs)) revs
           (rev_id (last revs))) = Inr ()"
    and "snd (apply_revisions env args (get_diffs env (map rev_diffPHID revs))
           (rev_id (last revs)) None revs) = Inl e"
  shows "snd (apply_stack env cfg args revs) = Inl e"
    and "fst (apply_stack env cfg args revs) =
           fst (log_patching args revs) @ fst (pull_diffs env revs)
           @ fst (select_base env cfg args (get_diffs env (map rev_diffPHID revs)) revs
                   (rev_id (last revs)))
           @ fst (apply_revisions env args (get_diffs env (map rev_diffPHID revs))
                   (rev_id (last revs)) None revs)"
  using assms
  by (simp_all add: apply_stack_def snd_bind_res fst_bind_res log_patching_def pull_diffs_def)

text \<open>
  Claim C2, as amended. In commit mode, on a stack of three revisions that passed the
  checks and the base selection, when \<^verbatim>\<open>repo.apply_patch\<close> takes the first patch and
  raises \<^verbatim>\<open>CalledProcessError\<close> on the second: the only commit is the first revision's,
  \<^verbatim>\<open>repo.apply_patch\<close> was called for the first and the second revision only, and the
  run ends with \<^verbatim>\<open>Error("Patch failed to apply")\<close>, a fixed text that does not
  reference the second revision's id.
\<close>

theorem second_patch_fails:
  assumes "\<not> raw args" "\<not> no_commit args"
    and "snd (preflight env args) = Inr ()"
    and "snd (resolve_stack env cfg args) = Inr (cfg', [r1, r2, r3])"
    and "get_diffs env (map rev_diffPHID [r1, r2, r3]) = diffs"
    and "diffs (rev_diffPHID r1) = Some d1" "diffs (rev_diffPHID r2) = Some d2"
      "diffs (rev_diffPHID r3) = Some d3"
    and "diff_commits d1 = a1 # as1" "diff_commits d2 = a2 # as2" "diff_commits d3 = a3 # as3"
    and "snd (select_base env cfg' args diffs [r1, r2, r3] (rev_id r3)) = Inr ()"
    and "body1 = prepare_body env (rev_title r1) (rev_summary r1) (rev_id r1) (phab_url env) None"
    and "body2 = prepare_body env (rev_title r2) (rev_summary r2) (rev_id r2) (phab_url env)
                   (Some (rev_id r1))"
    and "repo_apply_patch env (getrawdiff env (diff_id d1)) body1
           (author_name a1 @ '' <'' @ author_email a1 @ ''>'') (diff_dateCreated d1)"
    and "\<not> repo_apply_patch env (getrawdiff env (diff_id d2)) body2
           (author_name a2 @ '' <'' @ author_email a2 @ ''>'') (diff_dateCreated d2)"
  shows "snd (snd (patch env cfg args)) = Inl (Error ''Patch failed to apply'')
     \<and> commits (fst (patch env cfg args)) = [body1]
     \<and> attempts (fst (patch env cfg args)) = [body1, body2]"
proof -
  let ?revs = "[r1, r2, r3]"
  let ?au1 = "author_name a1 @ '' <'' @ author_email a1 @ ''>''"
  let ?au2 = "author_name a2 @ '' <'' @ author_email a2 @ ''>''"
  let ?t1 = "[PrepareBody (rev_title r1) (rev_summary r1) (rev_id r1) (phab_url env) None,
       Wait (''Downloading '' @ dname (rev_id r1) @ ''..''), GetRawDiff (diff_id d1),
       Wait (''Applying '' @ dname (rev_id r1) @ ''..''),
       RepoApplyPatch (getrawdiff env (diff_id d1)) body1 ?au1 (diff_dateCreated d1) True]
      @ (if rev_id r1 \<noteq> rev_id r3 then [LogInfo (dname (rev_id r1) @ '' applied'')] else [])"
  let ?t2 = "[PrepareBody (rev_title r2) (rev_summary r2) (rev_id r2) (phab_url env)
         (Some (rev_id r1)),
       Wait (''Downloading '' @ dname (rev_id r2) @ ''..''), GetRawDiff (diff_id d2)]"
  let ?end = "[Wait (''Applying '' @ dname (rev_id r2) @ ''..''),
       RepoApplyPatch (getrawdiff env (diff_id d2)) body2 ?au2 (diff_dateCreated d2) False]"
  have one: "apply_one env args diffs (rev_id r3) None r1 = (?t1, Inr ())"
    using apply_one_commit [where diffs = diffs and r = r1 and d = d1 and l = "rev_id r3",
        OF assms(1,2,6,9,13) refl] assms(15)
    by simp
  have two: "apply_one env args diffs (rev_id r3) (Some (rev_id r1)) r2
      = (?t2 @ ?end, Inl (Error ''Patch failed to apply''))"
    using apply_one_commit [where diffs = diffs and r = r2 and d = d2 and l = "rev_id r3",
        OF assms(1,2,7,10,14) refl] assms(16)
    by simp
  have loop: "apply_revisions env args diffs (rev_id r3) None ?revs
      = (?t1 @ ?t2 @ ?end, Inl (Error ''Patch failed to apply''))"
    by (simp add: one two emits_def)
  have check: "snd (check_commit_info diffs ?revs) = Inr ()"
    using assms(6-11) by simp
  have last: "rev_id (last ?revs) = rev_id r3"
    by simp
  note a = apply_stack_commit_mode [of args env ?revs cfg' "Error ''Patch failed to apply''",
      unfolded assms(5) last, OF assms(1,2) check assms(12)]
  have a1: "snd (apply_stack env cfg' args ?revs) = Inl (Error ''Patch failed to apply'')"
    by (rule a(1)) (simp only: loop snd_conv)
  have a2: "fst (apply_stack env cfg' args ?revs) =
           fst (log_patching args ?revs) @ fst (pull_diffs env ?revs)
           @ fst (select_base env cfg' args diffs ?revs (rev_id r3))
           @ ?t1 @ ?t2 @ ?end"
    using a(2) by (simp only: loop snd_conv fst_conv)
  note p = patch_Inr [OF assms(3,4)]
  have pre: "commits (fst (preflight env args)) = []" "attempts (fst (preflight env args)) = []"
    "commits (fst (resolve_stack env cfg args)) = []"
    "attempts (fst (resolve_stack env cfg args)) = []"
    by (simp_all add: commits_mutation_free attempts_mutation_free mutation_free_preflight
          mutation_free_resolve_stack)
  have r: "snd (snd (patch env cfg args)) = Inl (Error ''Patch failed to apply'')"
    by (simp add: p a1)
  have c: "commits (fst (patch env cfg args)) = [body1]"
    by (simp add: p a2 pre log_patching_def pull_diffs_def)
  have t: "attempts (fst (patch env cfg args)) = [body1, body2]"
    by (simp add: p a2 pre log_patching_def pull_diffs_def)
  from r c t show ?thesis
    by blast
qed

text \<open>Claim C2, as amended, on the sample stack with a repository that rejects revision 2.\<close>

theorem second_patch_fails_witness:
  "snd (snd (patch second_fails_env sample_cfg sample_args)) = Inl (Error ''Patch failed to apply'')
   \<and> commits (fst (patch second_fails_env sample_cfg sample_args)) = [''A'']
   \<and> attempts (fst (patch second_fails_env sample_cfg sample_args)) = [''A'', ''B'']"
proof -
  let ?E = second_fails_env
  let ?diffs = "sample_diffs (map rev_diffPHID [rev_a, rev_b, rev_c])"
  have h1: "\<not> raw sample_args" and h2: "\<not> no_commit sample_args"
    by (simp_all add: sample_args_def)
  have h3: "snd (preflight ?E sample_args) = Inr ()"
    by code_simp
  have h4: "snd (resolve_stack ?E sample_cfg sample_args) = Inr (sample_cfg, [rev_a, rev_b, rev_c])"
    by code_simp
  have h5: "get_diffs ?E (map rev_diffPHID [rev_a, rev_b, rev_c]) = ?diffs"
    by (simp add: second_fails_env_def sample_env_def)
  have h6: "?diffs (rev_diffPHID rev_a) = Some diff_a"
    and h7: "?diffs (rev_diffPHID rev_b) = Some diff_b"
    and h8: "?diffs (rev_diffPHID rev_c) = Some diff_c"
    using sample_diffs_all by simp_all
  have h9: "diff_commits diff_a = ann # []" and h10: "diff_commits diff_b = ann # []"
    and h11: "diff_commits diff_c = ann # []"
    by simp_all
  have h12: "snd (select_base ?E sample_cfg sample_args ?diffs [rev_a, rev_b, rev_c] (rev_id rev_c))
      = Inr ()"
    by code_simp
  have h13: "''A'' = prepare_body ?E (rev_title rev_a) (rev_summary rev_a) (rev_id rev_a)
      (phab_url ?E) None"
    and h14: "''B'' = prepare_body ?E (rev_title rev_b) (rev_summary rev_b) (rev_id rev_b)
      (phab_url ?E) (Some (rev_id rev_a))"
    by (simp_all add: second_fails_env_def sample_env_def)
  have h15: "repo_apply_patch ?E (getrawdiff ?E (diff_id diff_a)) ''A''
           (author_name ann @ '' <'' @ author_email ann @ ''>'') (diff_dateCreated diff_a)"
    and h16: "\<not> repo_apply_patch ?E (getrawdiff ?E (diff_id diff_b)) ''B''
           (author_name ann @ '' <'' @ author_email ann @ ''>'') (diff_dateCreated diff_b)"
    by (simp_all add: second_fails_env_def sample_env_def)
  from second_patch_fails [OF h1 h2 h3 h4 h5 h6 h7 h8 h9 h10 h11 h12 h13 h14 h15 h16]
  show ?thesis
    by blast
qed

text \<open>
  Claim C2 as stated fails: on the sample stack the second revision has the id 2, and the
  error that ends the run is \<^verbatim>\<open>Patch failed to apply\<close>, a text without any digit.
\<close>

theorem second_patch_fails_counterexample:
  "snd (snd (patch second_fails_env sample_cfg sample_args)) = Inl (Error ''Patch failed to apply'')
   \<and> attempts (fst (patch second_fails_env sample_cfg sample_args)) = [''A'', ''B'']
   \<and> str_int (rev_id rev_b) = ''2''
   \<and> \<not> list_ex (\<lambda>c. c \<in> set ''0123456789'') ''Patch failed to apply''"
  by code_simp

section \<open>Raw mode\<close>

lemma infos_append [simp]: "infos (a @ b) = infos a @ infos b"
  by (simp add: infos_def)

lemma infos_Nil [simp]: "infos [] = []"
  by (simp add: infos_def)

lemma infos_Cons [simp]: "infos (e # t) = info_of e @ infos t"
  by (simp add: infos_def)

lemma preflight_raw:
  "raw args \<Longrightarrow> fst (preflight env args) = [Wait ''Checking connection to Phabricator.'', ConduitCheck]"
  by (simp add: preflight_def)

lemma guard_free_fetch_parents: "\<not> list_ex is_guard (fst (fetch_parents env args r))"
  by (simp add: fetch_parents_def split: option.splits)

lemma guard_free_fetch_children: "\<not> list_ex is_guard (fst (fetch_children env args r))"
  by (simp add: fetch_children_def split: option.splits)

lemma guard_free_confirm_children: "\<not> list_ex is_guard (fst (confirm_children env cfg args cs))"
  by (simp add: confirm_children_def Let_def)

lemma guard_free_fetch_related: "\<not> list_ex is_guard (fst (fetch_related env revs ps cs))"
  by (simp add: fetch_related_def fst_bind_res)

lemma guard_free_resolve_stack: "\<not> list_ex is_guard (fst (resolve_stack env cfg args))"
  by (simp add: resolve_stack_def fst_bind_res guard_free_fetch_parents
        guard_free_fetch_children guard_free_confirm_children guard_free_fetch_related
        split: list.splits sum.splits prod.splits)

lemma infos_fetch_parents [simp]: "infos (fst (fetch_parents env args r)) = []"
  by (simp add: fetch_parents_def split: option.splits)

lemma infos_fetch_children [simp]: "infos (fst (fetch_children env args r)) = []"
  by (simp add: fetch_children_def split: option.splits)

lemma infos_confirm_children [simp]: "infos (fst (confirm_children env cfg args cs)) = []"
  by (simp add: confirm_children_def Let_def)

lemma infos_fetch_related [simp]: "infos (fst (fetch_related env revs ps cs)) = []"
  by (simp add: fetch_related_def fst_bind_res)

lemma infos_resolve_stack [simp]: "infos (fst (resolve_stack env cfg args)) = []"
  by (simp add: resolve_stack_def fst_bind_res split: list.splits sum.splits prod.splits)

lemma apply_one_raw:
  assumes "raw args" "\<not> no_commit args"
  shows "apply_one env args diffs l p r =
     (case diffs (rev_diffPHID r) of
        None \<Rightarrow> ([PrepareBody (rev_title r) (rev_summary r) (rev_id r) (phab_url env) p],
                 Inl (KeyError (rev_diffPHID r)))
      | Some d \<Rightarrow>
         ([PrepareBody (rev_title r) (rev_summary r) (rev_id r) (phab_url env) p,
           Wait (''Downloading '' @ dname (rev_id r) @ ''..''), GetRawDiff (diff_id d),
           LogInfo (getrawdiff env (diff_id d))],
          Inr ()))"
  using assms
  by (simp add: apply_one_def Let_def bind_res_def emits_def ret_def raise_def
        split: option.splits)

lemma apply_revisions_raw:
  assumes "raw args" "\<not> no_commit args"
  shows "\<not> list_ex is_guard (fst (apply_revisions env args diffs l p revs))
     \<and> \<not> list_ex is_mutation (fst (apply_revisions env args diffs l p revs))
     \<and> (snd (apply_revisions env args diffs l p revs) = Inr () \<longrightarrow>
          (\<exists>ds. map (\<lambda>r. diffs (rev_diffPHID r)) revs = map Some ds
             \<and> infos (fst (apply_revisions env args diffs l p revs))
                 = map (\<lambda>d. getrawdiff env (diff_id d)) ds))"
proof (induction revs arbitrary: p)
  case Nil
  show ?case by simp
next
  case (Cons r revs)
  show ?case
  proof (cases "diffs (rev_diffPHID r)")
    case None
    then show ?thesis
      by (simp add: apply_one_raw [OF assms])
  next
    case (Some d)
    from Cons.IH [of "Some (rev_id r)"] have
      g: "\<not> list_ex is_guard (fst (apply_revisions env args diffs l (Some (rev_id r)) revs))"
      and m: "\<not> list_ex is_mutation (fst (apply_revisions env args diffs l (Some (rev_id r)) revs))"
      and i: "snd (apply_revisions env args diffs l (Some (rev_id r)) revs) = Inr () \<longrightarrow>
          (\<exists>ds. map (\<lambda>r. diffs (rev_diffPHID r)) revs = map Some ds
             \<and> infos (fst (apply_revisions env args diffs l (Some (rev_id r)) revs))
                 = map (\<lambda>d. getrawdiff env (diff_id d)) ds)"
      by blast+
    have "\<exists>ds'. map (\<lambda>r. diffs (rev_diffPHID r)) (r # revs) = map Some ds'
             \<and> getrawdiff env (diff_id d)
                 # infos (fst (apply_revisions env args diffs l (Some (rev_id r)) revs))
                 = map (\<lambda>d. getrawdiff env (diff_id d)) ds'"
      if "snd (apply_revisions env args diffs l (Some (rev_id r)) revs) = Inr ()"
    proof -
      from i that obtain ds where "map (\<lambda>r. diffs (rev_diffPHID r)) revs = map Some ds"
        "infos (fst (apply_revisions env args diffs l (Some (rev_id r)) revs))
           = map (\<lambda>d. getrawdiff env (diff_id d)) ds"
        by blast
      with Some show ?thesis
        by (intro exI [of _ "d # ds"]) simp
    qed
    with Some g m show ?thesis
      by (simp add: apply_one_raw [OF assms])
  qed
qed

lemma apply_stack_raw:
  assumes "raw args" "\<not> no_commit args"
  shows "fst (apply_stack env cfg args revs) =
           [Wait ''Downloading patch information..'', GetDiffs (map rev_diffPHID revs)]
           @ fst (apply_revisions env args (get_diffs env (map rev_diffPHID revs))
                   (rev_id (last revs)) None revs)"
    and "snd (apply_stack env cfg args revs) =
           snd (apply_revisions env args (get_diffs env (map rev_diffPHID revs))
                   (rev_id (last revs)) None revs)"
  using assms
  by (simp_all add: apply_stack_def fst_bind_res snd_bind_res log_patching_def pull_diffs_def
        split: sum.splits)

text \<open>
  With \<^verbatim>\<open>--raw\<close> and without \<^verbatim>\<open>--no-commit\<close> the run makes none of the checks, calls
  nothing that changes the working tree, and, when it succeeds, writes with
  \<^verbatim>\<open>logger.info\<close> exactly the raw diffs of the revisions of the stack, in order.
\<close>

lemma raw_mode_prints_only:
  assumes "raw args" "\<not> no_commit args"
  shows "\<not> list_ex is_guard (fst (patch env cfg args))"
    and "\<not> list_ex is_mutation (fst (patch env cfg args))"
    and "snd (preflight env args) = Inr () \<Longrightarrow>
         snd (resolve_stack env cfg args) = Inr (cfg', revs) \<Longrightarrow>
         snd (snd (patch env cfg args)) = Inr () \<Longrightarrow>
         \<exists>ds. map (\<lambda>r. get_diffs env (map rev_diffPHID revs) (rev_diffPHID r)) revs = map Some ds
            \<and> infos (fst (patch env cfg args)) = map (\<lambda>d. getrawdiff env (diff_id d)) ds"
proof -
  note pf = preflight_raw [OF assms(1), of env]
  note ar = apply_revisions_raw [OF assms]
  note as = apply_stack_raw [OF assms]
  show "\<not> list_ex is_guard (fst (patch env cfg args))"
    by (simp add: patch_def pf guard_free_resolve_stack as ar split: sum.splits prod.splits)
  show "\<not> list_ex is_mutation (fst (patch env cfg args))"
    by (simp add: patch_def pf mutation_free_resolve_stack as ar split: sum.splits prod.splits)
  assume pre: "snd (preflight env args) = Inr ()"
    and res: "snd (resolve_stack env cfg args) = Inr (cfg', revs)"
    and ok: "snd (snd (patch env cfg args)) = Inr ()"
  note p = patch_Inr [OF pre res]
  from ok have "snd (apply_revisions env args (get_diffs env (map rev_diffPHID revs))
      (rev_id (last revs)) None revs) = Inr ()"
    by (simp add: p as)
  with ar [of env "get_diffs env (map rev_diffPHID revs)" "rev_id (last revs)" None revs]
  obtain ds where "map (\<lambda>r. get_diffs env (map rev_diffPHID revs) (rev_diffPHID r)) revs
      = map Some ds"
    "infos (fst (apply_revisions env args (get_diffs env (map rev_diffPHID revs))
      (rev_id (last revs)) None revs)) = map (\<lambda>d. getrawdiff env (diff_id d)) ds"
    by blast
  then show "\<exists>ds. map (\<lambda>r. get_diffs env (map rev_diffPHID revs) (rev_diffPHID r)) revs = map Some ds
            \<and> infos (fst (patch env cfg args)) = map (\<lambda>d. getrawdiff env (diff_id d)) ds"
    by (intro exI [of _ ds]) (simp add: p as pf)
qed

text \<open>
  Claim C6 fails when \<^verbatim>\<open>--raw\<close> comes with \<^verbatim>\<open>--no-commit\<close>, which the parser accepts
  together: line 198 tests \<^verbatim>\<open>args.no_commit\<close> before line 202 tests \<^verbatim>\<open>args.raw\<close>. On
  the sample stack that run makes no check, yet calls \<^verbatim>\<open>apply_patch\<close> on the working
  tree for the three revisions and prints no diff; with \<^verbatim>\<open>--raw\<close> alone it prints the
  three raw diffs.
\<close>

theorem raw_no_commit_applies_patches:
  "raw (sample_args\<lparr>raw := True, no_commit := True\<rparr>)
   \<and> snd (snd (patch sample_env sample_cfg (sample_args\<lparr>raw := True, no_commit := True\<rparr>)))
       = Inr ()
   \<and> filter is_mutation
        (fst (patch sample_env sample_cfg (sample_args\<lparr>raw := True, no_commit := True\<rparr>)))
       = [ApplyPatch ''raw11'' ''/r'', ApplyPatch ''raw12'' ''/r'', ApplyPatch ''raw13'' ''/r'']
   \<and> infos (fst (patch sample_env sample_cfg (sample_args\<lparr>raw := True, no_commit := True\<rparr>)))
       = []
   \<and> filter is_guard
        (fst (patch sample_env sample_cfg (sample_args\<lparr>raw := True, no_commit := True\<rparr>)))
       = []
   \<and> infos (fst (patch sample_env sample_cfg (sample_args\<lparr>raw := True\<rparr>)))
       = [''raw11'', ''raw12'', ''raw13'']"
  by code_simp

end
